theory Spec2Isabelle
  imports Main "HOL-Library.Word"
begin

unbundle bit_operations_syntax

section \<open>Buffers and errors\<close>

text \<open>
  A Node \<open>Buffer\<close> (and a \<open>Uint8Array\<close>) is a list of bytes. The three buffer
  operations the sources use are \<open>Buffer.alloc(n)\<close> (zero filled), the typed-array
  \<open>set(source, offset)\<close>, which throws a RangeError when the source does not fit, and
  the indexed store \<open>buf[i] = v\<close>, which is ignored out of range (as \<open>list_update\<close> is).
\<close>

type_synonym bytes = "8 word list"

datatype error =
    TypeError string
  | Error string
  | RangeError string
  | ReferenceError string
  | AssertionError string
  | SessionError string
  | MessageCounterError string
  | UntrustedIdentityKeyError string bytes

definition bindE :: "error + 'a \<Rightarrow> ('a \<Rightarrow> error + 'b) \<Rightarrow> error + 'b" where
  "bindE m f = (case m of Inl e \<Rightarrow> Inl e | Inr x \<Rightarrow> f x)"

definition alloc :: "nat \<Rightarrow> bytes" where
  "alloc n = replicate n 0"

definition buf_set :: "bytes \<Rightarrow> bytes \<Rightarrow> nat \<Rightarrow> error + bytes" where
  "buf_set buf src off =
     (if off + length src > length buf then Inl (RangeError ''offset is out of bounds'')
      else Inr (take off buf @ src @ drop (off + length src) buf))"

section \<open>Wire records and the external primitives\<close>

text \<open>
  \<open>protobufs.WhisperMessage\<close> and \<open>protobufs.PreKeyWhisperMessage\<close> records, as
  \<open>SessionCipher\<close> fills and reads them.
\<close>

record whisper_message =
  wm_ephemeralKey :: bytes
  wm_counter :: int
  wm_previousCounter :: int
  wm_ciphertext :: bytes

record prekey_whisper_message =
  pkm_identityKey :: bytes
  pkm_registrationId :: int
  pkm_baseKey :: bytes
  pkm_signedPreKeyId :: int
  pkm_message :: bytes
  pkm_preKeyId :: "int option"

text \<open>
  What the sources call and do not define are parameters of the model: Node's
  HMAC-SHA256 and AES-256-CBC, \<open>curve.calculateAgreement\<close>, and the protobuf codecs.
  A call that can throw (bad padding, a bad key, a malformed record) returns an error.
\<close>

record prims =
  hmac_sha256 :: "bytes \<Rightarrow> bytes \<Rightarrow> bytes"
  aes_cbc_encrypt :: "bytes \<Rightarrow> bytes \<Rightarrow> bytes \<Rightarrow> bytes"
  aes_cbc_decrypt :: "bytes \<Rightarrow> bytes \<Rightarrow> bytes \<Rightarrow> error + bytes"
  calculateAgreement :: "bytes \<Rightarrow> bytes \<Rightarrow> error + bytes"
  encodeWhisperMessage :: "whisper_message \<Rightarrow> bytes"
  decodeWhisperMessage :: "bytes \<Rightarrow> error + whisper_message"
  encodePreKeyWhisperMessage :: "prekey_whisper_message \<Rightarrow> bytes"

text \<open>HMAC-SHA256 digests are 32 bytes long.\<close>

definition digest32 :: "prims \<Rightarrow> bool" where
  "digest32 P = (\<forall>k d. length (hmac_sha256 P k d) = 32)"

section \<open>crypto.js\<close>

text \<open>
  \<open>calculateMAC(key, data)\<close>: the retry loop only runs again when Node's HMAC throws,
  which it does not on buffers, so the first attempt's digest is the result.
\<close>

definition calculateMAC :: "prims \<Rightarrow> bytes \<Rightarrow> bytes \<Rightarrow> bytes" where
  "calculateMAC P k d = hmac_sha256 P k d"

text \<open>
  \<open>deriveSecrets(input, salt, info, chunks)\<close>. \<open>chunks\<close> is \<open>None\<close> when the caller
  leaves it out; \<open>chunks = chunks || 3\<close> turns both a missing value and 0 into 3 before
  the assertion. \<open>infoArray\<close> is the 32 + |info| + 1 byte scratch array: the previous
  block is written at offset 0, \<open>info\<close> at offset 32, the block number in the last byte.
\<close>

definition expand_block :: "prims \<Rightarrow> bytes \<Rightarrow> bytes \<times> bytes list \<Rightarrow> 8 word \<Rightarrow> error + bytes \<times> bytes list" where
  "expand_block P PRK st i =
     (case st of (infoArray, signedL) \<Rightarrow>
        bindE (buf_set infoArray (last signedL) 0) (\<lambda>ia.
          let ia' = ia[length ia - 1 := i]
          in Inr (ia', signedL @ [calculateMAC P PRK ia'])))"

definition deriveSecrets :: "prims \<Rightarrow> bytes \<Rightarrow> bytes \<Rightarrow> bytes \<Rightarrow> int option \<Rightarrow> error + bytes list" where
  "deriveSecrets P input salt info chunks0 =
     (if length salt \<noteq> 32 then Inl (Error ''Got salt of incorrect length'')
      else
        let chunks = (case chunks0 of None \<Rightarrow> 3 | Some c \<Rightarrow> if c = 0 then 3 else c)
        in if \<not> (chunks \<ge> 1 \<and> chunks \<le> 3) then Inl (AssertionError ''chunks >= 1 && chunks <= 3'')
           else
             let PRK = calculateMAC P salt input
             in bindE (buf_set (alloc (length info + 1 + 32)) info 32) (\<lambda>ia0.
                  let ia1 = ia0[length ia0 - 1 := 1];
                      signed1 = [calculateMAC P PRK (drop 32 ia1)]
                  in bindE (if chunks > 1 then expand_block P PRK (ia1, signed1) 2
                            else Inr (ia1, signed1)) (\<lambda>st2.
                     bindE (if chunks > 2 then expand_block P PRK st2 3 else Inr st2) (\<lambda>st3.
                       Inr (snd st3)))))"

text \<open>
  \<open>verifyMAC(data, key, mac, length)\<close>. \<open>timingSafeEqual\<close> throws a RangeError on
  buffers of different lengths. The message of the mismatch error is Portuguese in the
  source (with two letters outside ASCII, which are left out here).
\<close>

definition mac_mismatch :: error where
  "mac_mismatch = Error ''Falha na verificacao do MAC''"

definition verifyMAC :: "prims \<Rightarrow> bytes \<Rightarrow> bytes \<Rightarrow> bytes \<Rightarrow> nat \<Rightarrow> error + unit" where
  "verifyMAC P data k mac len =
     (if length mac \<noteq> len then Inl (Error ''Comprimento esperado do MAC'')
      else
        let calculatedMac = take len (calculateMAC P k data)
        in if length calculatedMac \<noteq> length mac
           then Inl (RangeError ''Input buffers must have the same byte length'')
           else if calculatedMac \<noteq> mac then Inl mac_mismatch
           else Inr ())"

section \<open>Session entries (session_record.js, SessionEntry)\<close>

datatype chain_type = SENDING | RECEIVING

datatype base_key_type = OURS | THEIRS

text \<open>\<open>key = None\<close> is a chain key that was deleted (\<open>delete chain.chainKey.key\<close>).\<close>

record chain_key =
  counter :: int
  key :: "bytes option"

record chain =
  messageKeys :: "int \<rightharpoonup> bytes"
  chainKey :: chain_key
  chainType :: chain_type

record key_pair =
  pubKey :: bytes
  privKey :: bytes

record ratchet =
  ephemeralKeyPair :: key_pair
  lastRemoteEphemeralKey :: bytes
  previousCounter :: int
  rootKey :: bytes

record index_info =
  baseKey :: bytes
  baseKeyType :: base_key_type
  closed :: int
  used :: int
  created :: int
  remoteIdentityKey :: bytes

record pending_prekey =
  ppk_baseKey :: bytes
  signedKeyId :: int
  preKeyId :: "int option"

text \<open>
  \<open>_chains\<close> is keyed by the base64 text of the ephemeral public key; base64 is
  injective, so the model keys the map by the key bytes. \<open>registrationId\<close> is \<open>None\<close>
  when the field does not hold a number.

  \<open>session_data\<close> has the fields that \<open>serialize()\<close> writes into its document and
  \<open>deserialize(data)\<close> reads back (the base64 texts of the document are the byte strings
  they encode). A \<open>SessionEntry\<close> has these fields and \<open>_serializedCache\<close>, the
  document that the last \<open>serialize()\<close> built: \<open>serialize()\<close> returns it as long as it is
  set, and only \<open>addChain\<close> and \<open>deleteChain\<close> reset it (\<open>_invalidateCache\<close>). The
  numbers \<open>_lastAccessed\<close>, \<open>_chainCount\<close> and \<open>_serializationVersion\<close>, which are
  copied along and which no method reads back, are left out.
\<close>

record session_data =
  registrationId :: "int option"
  currentRatchet :: ratchet
  indexInfo :: index_info
  chains :: "bytes \<rightharpoonup> chain"
  pendingPreKey :: "pending_prekey option"

record session_entry = session_data +
  serializedCache :: "session_data option"

definition getChain :: "session_entry \<Rightarrow> bytes \<Rightarrow> chain option" where
  "getChain s k = chains s k"

definition addChain :: "session_entry \<Rightarrow> bytes \<Rightarrow> chain \<Rightarrow> error + session_entry" where
  "addChain s k v =
     (if chains s k \<noteq> None then Inl (Error ''Overwrite attempt'')
      else Inr (s\<lparr>chains := (chains s)(k \<mapsto> v), serializedCache := None\<rparr>))"

definition deleteChain :: "session_entry \<Rightarrow> bytes \<Rightarrow> error + session_entry" where
  "deleteChain s k =
     (if chains s k = None then Inl (ReferenceError ''Not Found'')
      else Inr (s\<lparr>chains := (chains s)(k := None), serializedCache := None\<rparr>))"

text \<open>
  \<open>SessionEntry.serialize()\<close>: the cached document when there is one, otherwise a
  copy of the fields as they are now, which becomes the cached document. The entry
  comes back as the call leaves it. \<open>SessionEntry.deserialize(data)\<close> builds an entry
  from a document, with no cached document.
\<close>

definition serializeEntry :: "session_entry \<Rightarrow> session_data \<times> session_entry" where
  "serializeEntry s =
     (case serializedCache s of
        Some data \<Rightarrow> (data, s)
      | None \<Rightarrow>
          let data = \<lparr>registrationId = registrationId s,
                      currentRatchet = currentRatchet s,
                      indexInfo = indexInfo s,
                      chains = chains s,
                      pendingPreKey = pendingPreKey s\<rparr>
          in (data, s\<lparr>serializedCache := Some data\<rparr>))"

definition deserializeEntry :: "session_data \<Rightarrow> session_entry" where
  "deserializeEntry data =
     \<lparr>registrationId = registrationId data,
      currentRatchet = currentRatchet data,
      indexInfo = indexInfo data,
      chains = chains data,
      pendingPreKey = pendingPreKey data,
      serializedCache = None\<rparr>"

section \<open>SessionCipher.fillMessageKeys\<close>

text \<open>
  The class body of \<open>SessionCipher\<close> defines \<open>fillMessageKeys\<close> twice; the later
  definition (the recursive one below) replaces the earlier one on the prototype, so it
  is the method every caller reaches.
\<close>

function fillMessageKeys :: "prims \<Rightarrow> chain \<Rightarrow> int \<Rightarrow> error + chain" where
  "fillMessageKeys P ch target =
     (if counter (chainKey ch) \<ge> target then Inr ch
      else if target - counter (chainKey ch) > 2000
        then Inl (SessionError ''Over 2000 messages into the future!'')
      else case key (chainKey ch) of
          None \<Rightarrow> Inl (SessionError ''Chain closed'')
        | Some k \<Rightarrow>
            fillMessageKeys P
              (ch\<lparr>messageKeys := (messageKeys ch)(counter (chainKey ch) + 1 \<mapsto> calculateMAC P k [1]),
                  chainKey := \<lparr>counter = counter (chainKey ch) + 1,
                               key = Some (calculateMAC P k [2])\<rparr>\<rparr>)
              target)"
  by pat_completeness auto
termination
  by (relation "measure (\<lambda>(P, ch, target). nat (target - counter (chainKey ch)))") auto

declare fillMessageKeys.simps [simp del]

text \<open>
  The chain-key step as the specification words it: the message-key seed
  HMAC(chainKey.key, 0x01) is stored under counter + 1, the chain key becomes
  HMAC(chainKey.key, 0x02), and the counter goes up by one.
\<close>

definition chainKeyStep_spec :: "prims \<Rightarrow> chain \<Rightarrow> chain" where
  "chainKeyStep_spec P ch =
     (case key (chainKey ch) of
        None \<Rightarrow> ch
      | Some k \<Rightarrow>
          ch\<lparr>messageKeys := (messageKeys ch)(counter (chainKey ch) + 1 \<mapsto> hmac_sha256 P k [1]),
             chainKey := \<lparr>counter = counter (chainKey ch) + 1,
                          key = Some (hmac_sha256 P k [2])\<rparr>\<rparr>)"

section \<open>crypto/crypto_engine.js\<close>

text \<open>
  \<open>CryptoEngine\<close> keeps one \<open>Map\<close>, \<open>_memoCache\<close>, whose keys are the texts
  \<open>mac:<hex key>|<hex data>\<close> and \<open>derive:<hex input>|<hex salt>|<hex info>|<chunks>\<close>.
  Hex text has no \<open>|\<close> and the two prefixes differ, so the map is the disjoint union
  of a map from (key, data) and a map from (input, salt, info, chunks); its \<open>size\<close> is
  the sum of theirs. Both are association lists.
\<close>

record engine =
  macMemo :: "((bytes \<times> bytes) \<times> bytes) list"
  deriveMemo :: "((bytes \<times> bytes \<times> bytes \<times> int) \<times> bytes list) list"

definition memo_set :: "('k \<times> 'v) list \<Rightarrow> 'k \<Rightarrow> 'v \<Rightarrow> ('k \<times> 'v) list" where
  "memo_set m k v =
     (if map_of m k = None then m @ [(k, v)]
      else map (\<lambda>e. if fst e = k then (k, v) else e) m)"

definition memo_size :: "engine \<Rightarrow> nat" where
  "memo_size eng = length (macMemo eng) + length (deriveMemo eng)"

definition engine_calculateMAC :: "prims \<Rightarrow> engine \<Rightarrow> bytes \<Rightarrow> bytes \<Rightarrow> bytes \<times> engine" where
  "engine_calculateMAC P eng k d =
     (let canMemoize = (length k = 32 \<and> length d < 1024)
      in case (if canMemoize then map_of (macMemo eng) (k, d) else None) of
           Some v \<Rightarrow> (v, eng)
         | None \<Rightarrow>
             let result = hmac_sha256 P k d
             in (result,
                 if canMemoize then eng\<lparr>macMemo := memo_set (macMemo eng) (k, d) result\<rparr>
                 else eng))"

definition engine_expand_block ::
  "prims \<Rightarrow> bytes \<Rightarrow> (bytes \<times> bytes list) \<times> engine \<Rightarrow> 8 word \<Rightarrow> (error + bytes \<times> bytes list) \<times> engine" where
  "engine_expand_block P PRK st i =
     (case st of ((infoArray, signedL), eng) \<Rightarrow>
        (case buf_set infoArray (last signedL) 0 of
           Inl e \<Rightarrow> (Inl e, eng)
         | Inr ia \<Rightarrow>
             let ia' = ia[length ia - 1 := i];
                 r = engine_calculateMAC P eng PRK ia'
             in (Inr (ia', signedL @ [fst r]), snd r)))"

text \<open>
  \<open>deriveSecrets(input, salt, info, chunks = 3)\<close> of the engine: the default only
  replaces a missing argument. The \<open>for\<close> loop runs for i = 2 and i = 3 at most,
  because \<open>chunks\<close> is at most 3 here.
\<close>

definition engine_deriveSecrets ::
  "prims \<Rightarrow> engine \<Rightarrow> bytes \<Rightarrow> bytes \<Rightarrow> bytes \<Rightarrow> int option \<Rightarrow> (error + bytes list) \<times> engine" where
  "engine_deriveSecrets P eng input salt info chunks0 =
     (if length salt \<noteq> 32 then (Inl (TypeError ''salt must be 32 bytes''), eng)
      else
        let chunks = (case chunks0 of None \<Rightarrow> 3 | Some c \<Rightarrow> c)
        in if chunks < 1 \<or> chunks > 3 then (Inl (Error ''chunks must be between 1 and 3''), eng)
           else case map_of (deriveMemo eng) (input, salt, info, chunks) of
               Some v \<Rightarrow> (Inr v, eng)
             | None \<Rightarrow>
                 let r0 = engine_calculateMAC P eng salt input;
                     PRK = fst r0
                 in (case buf_set (alloc (length info + 1 + 32)) info 32 of
                       Inl e \<Rightarrow> (Inl e, snd r0)
                     | Inr ia0 \<Rightarrow>
                         let ia1 = ia0[length ia0 - 1 := 1];
                             r1 = engine_calculateMAC P (snd r0) PRK (drop 32 ia1);
                             st1 = ((ia1, [fst r1]), snd r1)
                         in (case (if 2 \<le> chunks then engine_expand_block P PRK st1 2
                                   else (Inr (fst st1), snd st1)) of
                               (Inl e, eng2) \<Rightarrow> (Inl e, eng2)
                             | (Inr s2, eng2) \<Rightarrow>
                                 (case (if 3 \<le> chunks then engine_expand_block P PRK (s2, eng2) 3
                                        else (Inr s2, eng2)) of
                                    (Inl e, eng3) \<Rightarrow> (Inl e, eng3)
                                  | (Inr s3, eng3) \<Rightarrow>
                                      (Inr (snd s3),
                                       if memo_size eng3 < 100
                                       then eng3\<lparr>deriveMemo :=
                                              memo_set (deriveMemo eng3) (input, salt, info, chunks) (snd s3)\<rparr>
                                       else eng3)))))"

definition engine_encrypt :: "prims \<Rightarrow> bytes \<Rightarrow> bytes \<Rightarrow> bytes \<Rightarrow> error + bytes" where
  "engine_encrypt P k d iv =
     (if length k \<noteq> 32 then Inl (TypeError ''key must be 32 bytes'')
      else if length iv \<noteq> 16 then Inl (TypeError ''iv must be 16 bytes'')
      else Inr (aes_cbc_encrypt P k d iv))"

text \<open>
  HKDF as the specification words it: PRK = HMAC(salt, input), T(1) = HMAC(PRK, info || 0x01),
  T(i) = HMAC(PRK, T(i-1) || info || byte(i)).
\<close>

fun hkdf_T :: "prims \<Rightarrow> bytes \<Rightarrow> bytes \<Rightarrow> nat \<Rightarrow> bytes" where
  "hkdf_T P PRK info 0 = []"
| "hkdf_T P PRK info (Suc n) =
     hmac_sha256 P PRK (hkdf_T P PRK info n @ info @ [of_nat (Suc n)])"

definition hkdf_spec :: "prims \<Rightarrow> bytes \<Rightarrow> bytes \<Rightarrow> bytes \<Rightarrow> nat \<Rightarrow> bytes list" where
  "hkdf_spec P input salt info chunks =
     map (\<lambda>i. hkdf_T P (hmac_sha256 P salt input) info (Suc i)) [0..<chunks]"

text \<open>The memo cache holds nothing but results of the computations it stands for.\<close>

definition memo_ok :: "prims \<Rightarrow> engine \<Rightarrow> bool" where
  "memo_ok P eng =
     (list_all (\<lambda>e. snd e = hmac_sha256 P (fst (fst e)) (snd (fst e))) (macMemo eng) \<and>
      list_all (\<lambda>e. case fst e of (input, salt, info, chunks) \<Rightarrow>
                       snd e = hkdf_spec P input salt info (nat chunks)) (deriveMemo eng))"

section \<open>SessionRecord (session_record.js)\<close>

text \<open>
  \<open>sessions\<close> is a JavaScript object from the base64 text of a base key to the session
  entry; the association list gives its entries in the object's enumeration order
  (\<open>Object.entries\<close>, \<open>Object.values\<close>), with each key once. The two caches hold
  references to entries of \<open>sessions\<close>: every method that adds, replaces or deletes
  an entry resets them, so a cached reference is modelled as the key of the entry.
  \<open>_openSessionCache\<close> is \<open>null\<close>, \<open>false\<close> or a session. The batch queue and the
  performance counters, which no method reads back, are left out.
\<close>

datatype open_cache = CacheNull | CacheFalse | CacheSession string

record session_record =
  sessions :: "(string \<times> session_entry) list"
  openSessionCache :: open_cache
  sortedSessionsCache :: "string list option"
  lastCleanup :: int
  cleanupInterval :: int

definition CLOSED_SESSIONS_MAX :: int where
  "CLOSED_SESSIONS_MAX = 40"

definition isClosed :: "session_entry \<Rightarrow> bool" where
  "isClosed session = (closed (indexInfo session) \<noteq> - 1)"

definition invalidateCaches :: "session_record \<Rightarrow> session_record" where
  "invalidateCaches r = r\<lparr>openSessionCache := CacheNull, sortedSessionsCache := None\<rparr>"

text \<open>The search loop of \<open>getOpenSession\<close>: the first entry that is not closed.\<close>

definition searchOpenSession :: "session_record \<Rightarrow> (string \<times> session_entry) option \<times> session_record" where
  "searchOpenSession r =
     (case find (\<lambda>e. \<not> isClosed (snd e)) (sessions r) of
        Some e \<Rightarrow> (Some e, r\<lparr>openSessionCache := CacheSession (fst e)\<rparr>)
      | None \<Rightarrow> (None, r\<lparr>openSessionCache := CacheFalse\<rparr>))"

definition getOpenSession :: "session_record \<Rightarrow> (string \<times> session_entry) option \<times> session_record" where
  "getOpenSession r =
     (case openSessionCache r of
        CacheSession k \<Rightarrow>
          (case map_of (sessions r) k of
             Some session \<Rightarrow> if \<not> isClosed session then (Some (k, session), r) else searchOpenSession r
           | None \<Rightarrow> searchOpenSession r)
      | _ \<Rightarrow> searchOpenSession r)"

definition haveOpenSession :: "session_record \<Rightarrow> bool \<times> session_record" where
  "haveOpenSession r =
     (if openSessionCache r \<noteq> CacheNull then (openSessionCache r \<noteq> CacheFalse, r)
      else
        case getOpenSession r of
          (None, r') \<Rightarrow> (False, r')
        | (Some e, r') \<Rightarrow> (registrationId (snd e) \<noteq> None, r'))"

text \<open>
  \<open>getSessions\<close>: most recently used first. \<open>Array.prototype.sort\<close> is stable, and so
  is \<open>sort_key\<close>.
\<close>

definition getSessions :: "session_record \<Rightarrow> string list \<times> session_record" where
  "getSessions r =
     (case sortedSessionsCache r of
        Some ks \<Rightarrow> (ks, r)
      | None \<Rightarrow>
          let sorted = map fst (sort_key (\<lambda>e. - used (indexInfo (snd e))) (sessions r))
          in (sorted, r\<lparr>sortedSessionsCache := Some sorted\<rparr>))"

definition closeSession :: "session_record \<Rightarrow> string \<Rightarrow> int \<Rightarrow> session_record" where
  "closeSession r k now =
     (case map_of (sessions r) k of
        None \<Rightarrow> r
      | Some session \<Rightarrow>
          if isClosed session then r
          else invalidateCaches
                 (r\<lparr>sessions := map (\<lambda>e. if fst e = k
                                           then (k, session\<lparr>indexInfo := (indexInfo session)\<lparr>closed := now\<rparr>\<rparr>)
                                           else e) (sessions r)\<rparr>))"

text \<open>
  The \<open>for\<close> loop inside \<open>removeOldSessions\<close>: \<open>None\<close> stands for the initial
  \<open>oldestKey = undefined\<close>, \<open>oldestTime = Infinity\<close>.
\<close>

definition oldest_step ::
  "(string \<times> session_entry \<times> int) option \<Rightarrow> string \<times> session_entry \<Rightarrow> (string \<times> session_entry \<times> int) option" where
  "oldest_step acc e =
     (if closed (indexInfo (snd e)) \<noteq> - 1 \<and>
         (case acc of None \<Rightarrow> True | Some (_, _, oldestTime) \<Rightarrow> closed (indexInfo (snd e)) < oldestTime)
      then Some (fst e, snd e, closed (indexInfo (snd e)))
      else acc)"

definition find_oldest :: "(string \<times> session_entry) list \<Rightarrow> (string \<times> session_entry \<times> int) option" where
  "find_oldest entries = foldl oldest_step None entries"

text \<open>
  \<open>sessionEntries.splice(index, 1)\<close> at the first index whose key is \<open>k\<close> (nothing when
  \<open>findIndex\<close> gives -1), and \<open>delete this.sessions[k]\<close>.
\<close>

definition splice_key :: "string \<Rightarrow> (string \<times> session_entry) list \<Rightarrow> (string \<times> session_entry) list" where
  "splice_key k entries =
     takeWhile (\<lambda>e. fst e \<noteq> k) entries @ drop 1 (dropWhile (\<lambda>e. fst e \<noteq> k) entries)"

definition delete_key :: "string \<Rightarrow> (string \<times> session_entry) list \<Rightarrow> (string \<times> session_entry) list" where
  "delete_key k m = filter (\<lambda>e. fst e \<noteq> k) m"

text \<open>
  The \<open>while\<close> loop of \<open>removeOldSessions\<close>, on \<open>this.sessions\<close>, the local array
  \<open>sessionEntries\<close> and \<open>removedCount\<close>. The last component lists the deleted entries
  in the order of their deletion; the source keeps no such list, it is there to state
  that order. \<open>if (oldestKey)\<close> is false for the empty key as well as for \<open>undefined\<close>.
\<close>

function removeOldSessions_loop ::
  "(string \<times> session_entry) list \<Rightarrow> (string \<times> session_entry) list \<Rightarrow> int \<Rightarrow> (string \<times> session_entry) list
   \<Rightarrow> (string \<times> session_entry) list \<times> int \<times> (string \<times> session_entry) list" where
  "removeOldSessions_loop sess sessionEntries removedCount removed =
     (if int (length sessionEntries) - removedCount > CLOSED_SESSIONS_MAX then
        (case find_oldest sessionEntries of
           None \<Rightarrow> (sess, removedCount, removed)
         | Some (oldestKey, oldestSession, oldestTime) \<Rightarrow>
             if oldestKey \<noteq> [] then
               removeOldSessions_loop (delete_key oldestKey sess) (splice_key oldestKey sessionEntries)
                 (removedCount + 1) (removed @ [(oldestKey, oldestSession)])
             else (sess, removedCount, removed))
      else (sess, removedCount, removed))"
  by pat_completeness auto
termination
proof (relation "measure (\<lambda>(sess, entries, removedCount, removed).
                   nat (int (length entries) - removedCount))", goal_cases)
  case 1
  show ?case by simp
next
  case (2 sess sessionEntries removedCount removed x2 oldestKey y oldestSession oldestTime)
  have "length (takeWhile (\<lambda>e. fst e \<noteq> oldestKey) sessionEntries)
        + length (dropWhile (\<lambda>e. fst e \<noteq> oldestKey) sessionEntries) = length sessionEntries"
    by (metis length_append takeWhile_dropWhile_id)
  then have "length (splice_key oldestKey sessionEntries) \<le> length sessionEntries"
    by (simp add: splice_key_def)
  with 2 show ?case by (simp add: CLOSED_SESSIONS_MAX_def)
qed

declare removeOldSessions_loop.simps [simp del]

text \<open>
  \<open>removeOldSessions()\<close> at time \<open>now\<close> (the value of \<open>Date.now()\<close>): the removed
  count, the record afterwards, and the deleted entries in order.
\<close>

definition removeOldSessions ::
  "session_record \<Rightarrow> int \<Rightarrow> int \<times> session_record \<times> (string \<times> session_entry) list" where
  "removeOldSessions r now =
     (if now - lastCleanup r < cleanupInterval r then (0, r, [])
      else
        case removeOldSessions_loop (sessions r) (sessions r) 0 [] of
          (sess, removedCount, removed) \<Rightarrow>
            (removedCount,
             if removedCount > 0
             then (invalidateCaches (r\<lparr>sessions := sess\<rparr>))\<lparr>lastCleanup := now\<rparr>
             else r\<lparr>sessions := sess\<rparr>,
             removed))"

text \<open>
  The persisted form of a record. \<open>serialize()\<close> returns the document
  \<open>{_sessions, version}\<close> with \<open>entry.serialize()\<close> for every entry, in the order of
  \<open>sessions\<close>; the version it writes is always v1, so the document is the list of
  entries. The record comes back as the call leaves it (each entry keeps the document
  it returned). \<open>SessionRecord.deserialize(data)\<close> reads a v1 document without
  migration into a new record, whose constructor runs at time \<open>now\<close>.
\<close>

type_synonym record_document = "(string \<times> session_data) list"

definition serialize :: "session_record \<Rightarrow> record_document \<times> session_record" where
  "serialize r =
     (map (\<lambda>e. (fst e, fst (serializeEntry (snd e)))) (sessions r),
      r\<lparr>sessions := map (\<lambda>e. (fst e, snd (serializeEntry (snd e)))) (sessions r)\<rparr>)"

definition deserialize :: "record_document \<Rightarrow> int \<Rightarrow> session_record" where
  "deserialize data now =
     \<lparr>sessions = map (\<lambda>e. (fst e, deserializeEntry (snd e))) data,
      openSessionCache = CacheNull,
      sortedSessionsCache = None,
      lastCleanup = now,
      cleanupInterval = 5 * 60 * 1000\<rparr>"

section \<open>SessionCipher (session_cipher.js)\<close>

definition VERSION :: int where
  "VERSION = 3"

text \<open>\<open>Buffer.from(text)\<close> for an ASCII text.\<close>

definition utf8 :: "string \<Rightarrow> bytes" where
  "utf8 s = map (\<lambda>c. of_nat (of_char c)) s"

definition encodeTupleByte :: "int \<Rightarrow> int \<Rightarrow> error + int" where
  "encodeTupleByte number1 number2 =
     (if number1 > 15 \<or> number2 > 15 then Inl (TypeError ''Numbers must be 4 bits or less'')
      else Inr (push_bit 4 number1 OR number2))"

definition decodeTupleByte :: "int \<Rightarrow> int \<times> int" where
  "decodeTupleByte byte = (drop_bit 4 byte, byte AND 15)"

text \<open>
  \<open>messageBuffer[0]\<close>: \<open>undefined\<close> on an empty buffer, which the shift and the mask
  of \<open>_decodeTupleByte\<close> read as 0.
\<close>

definition firstByte :: "bytes \<Rightarrow> int" where
  "firstByte buf = (case buf of [] \<Rightarrow> 0 | b # _ \<Rightarrow> uint b)"

text \<open>
  The MAC input, built the same way by \<open>encrypt\<close> and \<open>doDecryptWhisperMessage\<close>: a
  zeroed buffer of |msgBuf| + 2 * 33 + 1 bytes, the first identity key written at 0, the
  second at 33, the version byte stored at 66 and the encoded message written at 67.
\<close>

definition buildMacInput :: "bytes \<Rightarrow> bytes \<Rightarrow> bytes \<Rightarrow> error + bytes" where
  "buildMacInput firstKey secondKey msgBuf =
     bindE (buf_set (alloc (length msgBuf + 33 * 2 + 1)) firstKey 0) (\<lambda>m1.
     bindE (buf_set m1 secondKey 33) (\<lambda>m2.
     bindE (encodeTupleByte VERSION VERSION) (\<lambda>v.
       buf_set (m2[33 * 2 := of_int v]) msgBuf (33 * 2 + 1))))"

text \<open>The frame \<open>result\<close> of \<open>encrypt\<close>: version byte, encoded message, \<open>mac.slice(0, 8)\<close>.\<close>

definition buildResult :: "bytes \<Rightarrow> bytes \<Rightarrow> error + bytes" where
  "buildResult msgBuf mac =
     bindE (encodeTupleByte VERSION VERSION) (\<lambda>v.
     bindE (buf_set ((alloc (length msgBuf + 9))[0 := of_int v]) msgBuf 1) (\<lambda>r1.
       buf_set r1 (take 8 mac) (length msgBuf + 1)))"

definition calculateRatchet :: "prims \<Rightarrow> session_entry \<Rightarrow> bytes \<Rightarrow> bool \<Rightarrow> error + session_entry" where
  "calculateRatchet P session remoteKey sending =
     (let ratchet = currentRatchet session
      in bindE (calculateAgreement P remoteKey (privKey (ephemeralKeyPair ratchet))) (\<lambda>sharedSecret.
         bindE (deriveSecrets P sharedSecret (rootKey ratchet) (utf8 ''WhisperRatchet'') (Some 2)) (\<lambda>masterKey.
           case masterKey of
             [m0, m1] \<Rightarrow>
               bindE (addChain session (if sending then pubKey (ephemeralKeyPair ratchet) else remoteKey)
                        \<lparr>messageKeys = Map.empty,
                         chainKey = \<lparr>counter = - 1, key = Some m1\<rparr>,
                         chainType = (if sending then SENDING else RECEIVING)\<rparr>) (\<lambda>session1.
                 Inr (session1\<lparr>currentRatchet := (currentRatchet session1)\<lparr>rootKey := m0\<rparr>\<rparr>))
           | _ \<Rightarrow> Inl (TypeError ''masterKey''))))"

text \<open>
  \<open>maybeStepRatchet\<close>; \<open>fresh\<close> is the key pair \<open>curve.generateKeyPair()\<close> returns.
  The session comes back as the call leaves it, also when it throws.
\<close>

definition closePreviousChain :: "prims \<Rightarrow> session_entry \<Rightarrow> int \<Rightarrow> error + session_entry" where
  "closePreviousChain P session previousCounter' =
     (let lastKey = lastRemoteEphemeralKey (currentRatchet session)
      in case getChain session lastKey of
           None \<Rightarrow> Inr session
         | Some previousRatchet \<Rightarrow>
             bindE (fillMessageKeys P previousRatchet previousCounter') (\<lambda>pr.
               Inr (session\<lparr>chains := (chains session)(lastKey \<mapsto>
                      pr\<lparr>chainKey := (chainKey pr)\<lparr>key := None\<rparr>\<rparr>)\<rparr>)))"

definition swapSendingChain :: "session_entry \<Rightarrow> key_pair \<Rightarrow> session_entry" where
  "swapSendingChain session fresh =
     (let ourKey = pubKey (ephemeralKeyPair (currentRatchet session));
          session1 =
            (case getChain session ourKey of
               None \<Rightarrow> session
             | Some prevCounter \<Rightarrow>
                 session\<lparr>currentRatchet :=
                           (currentRatchet session)\<lparr>previousCounter := counter (chainKey prevCounter)\<rparr>,
                         chains := (chains session)(ourKey := None),
                         serializedCache := None\<rparr>)
      in session1\<lparr>currentRatchet := (currentRatchet session1)\<lparr>ephemeralKeyPair := fresh\<rparr>\<rparr>)"

definition maybeStepRatchet ::
  "prims \<Rightarrow> key_pair \<Rightarrow> session_entry \<Rightarrow> bytes \<Rightarrow> int \<Rightarrow> (error + unit) \<times> session_entry" where
  "maybeStepRatchet P fresh session remoteKey previousCounter' =
     (if getChain session remoteKey \<noteq> None then (Inr (), session)
      else
        case closePreviousChain P session previousCounter' of
          Inl e \<Rightarrow> (Inl e, session)
        | Inr session1 \<Rightarrow>
            (case calculateRatchet P session1 remoteKey False of
               Inl e \<Rightarrow> (Inl e, session1)
             | Inr session2 \<Rightarrow>
                 let session3 = swapSendingChain session2 fresh
                 in (case calculateRatchet P session3 remoteKey True of
                       Inl e \<Rightarrow> (Inl e, session3)
                     | Inr session4 \<Rightarrow>
                         (Inr (),
                          session4\<lparr>currentRatchet :=
                                     (currentRatchet session4)\<lparr>lastRemoteEphemeralKey := remoteKey\<rparr>\<rparr>))))"

text \<open>
  \<open>doDecryptWhisperMessage(messageBuffer, session)\<close>, with the identity key pair that
  \<open>storage.getOurIdentity()\<close> gives. \<open>messageBuffer.slice(1, -8)\<close> is
  \<open>take (n - 9) (drop 1 buf)\<close> and \<open>messageBuffer.slice(-8)\<close> is \<open>drop (n - 8) buf\<close>.
  The session is mutated in place, so the model returns it as the call leaves it, on
  success and on failure.
\<close>

definition verifyAndDecrypt ::
  "prims \<Rightarrow> key_pair \<Rightarrow> session_entry \<Rightarrow> bytes \<Rightarrow> bytes \<Rightarrow> whisper_message \<Rightarrow> bytes \<Rightarrow> error + bytes" where
  "verifyAndDecrypt P ourIdentityKey session messageBuffer messageProto message messageKey =
     bindE (deriveSecrets P messageKey (alloc 32) (utf8 ''WhisperMessageKeys'') None) (\<lambda>keys.
       case keys of
         [k0, k1, k2] \<Rightarrow>
           bindE (buildMacInput (remoteIdentityKey (indexInfo session)) (pubKey ourIdentityKey) messageProto)
             (\<lambda>macInput.
           bindE (verifyMAC P macInput k1 (drop (length messageBuffer - 8) messageBuffer) 8) (\<lambda>_.
             aes_cbc_decrypt P k0 (wm_ciphertext message) (take 16 k2)))
       | _ \<Rightarrow> Inl (TypeError ''keys''))"

definition doDecryptWhisperMessage ::
  "prims \<Rightarrow> key_pair \<Rightarrow> key_pair \<Rightarrow> bytes \<Rightarrow> session_entry \<Rightarrow> (error + bytes) \<times> session_entry" where
  "doDecryptWhisperMessage P ourIdentityKey fresh messageBuffer session =
     (let versions = decodeTupleByte (firstByte messageBuffer)
      in if snd versions > 3 \<or> fst versions < 3
         then (Inl (Error ''Incompatible version number on WhisperMessage''), session)
         else
           let messageProto = take (length messageBuffer - 9) (drop 1 messageBuffer)
           in case decodeWhisperMessage P messageProto of
                Inl e \<Rightarrow> (Inl e, session)
              | Inr message \<Rightarrow>
                  (case maybeStepRatchet P fresh session (wm_ephemeralKey message) (wm_previousCounter message) of
                     (Inl e, s1) \<Rightarrow> (Inl e, s1)
                   | (Inr _, s1) \<Rightarrow>
                       (case getChain s1 (wm_ephemeralKey message) of
                          None \<Rightarrow> (Inl (TypeError ''Cannot read properties of undefined''), s1)
                        | Some ch \<Rightarrow>
                            if chainType ch = SENDING
                            then (Inl (Error ''Tried to decrypt on a sending chain''), s1)
                            else
                              (case fillMessageKeys P ch (wm_counter message) of
                                 Inl e \<Rightarrow> (Inl e, s1)
                               | Inr ch1 \<Rightarrow>
                                   (case messageKeys ch1 (wm_counter message) of
                                      None \<Rightarrow>
                                        (Inl (MessageCounterError ''Key used already or never filled''),
                                         s1\<lparr>chains := (chains s1)(wm_ephemeralKey message \<mapsto> ch1)\<rparr>)
                                    | Some messageKey \<Rightarrow>
                                        let ch2 = ch1\<lparr>messageKeys := (messageKeys ch1)(wm_counter message := None)\<rparr>;
                                            s2 = s1\<lparr>chains := (chains s1)(wm_ephemeralKey message \<mapsto> ch2)\<rparr>
                                        in (case verifyAndDecrypt P ourIdentityKey s2 messageBuffer
                                                   messageProto message messageKey of
                                              Inl e \<Rightarrow> (Inl e, s2)
                                            | Inr plaintext \<Rightarrow>
                                                (Inr plaintext, s2\<lparr>pendingPreKey := None\<rparr>)))))))"

text \<open>
  The storage capability, as far as \<open>SessionCipher\<close> uses it. The caller supplies
  it; it holds the record of the cipher's address in the persisted form that
  \<open>SessionRecord\<close> defines: \<open>storeSession(id, record)\<close>
  keeps the document that \<open>record.serialize()\<close> returns, and \<open>loadSession(id)\<close>
  returns \<open>SessionRecord.deserialize\<close> of the stored document, a new record at every
  call, or \<open>null\<close> when nothing is stored.
\<close>

record storage =
  stored :: "record_document option"
  isTrustedIdentity :: "string \<Rightarrow> bytes \<Rightarrow> bool"
  ourIdentity :: key_pair
  ourRegistrationId :: int

definition loadSession :: "storage \<Rightarrow> int \<Rightarrow> session_record option" where
  "loadSession st now = map_option (\<lambda>data. deserialize data now) (stored st)"

definition storeSession :: "storage \<Rightarrow> session_record \<Rightarrow> storage \<times> session_record" where
  "storeSession st record' =
     (st\<lparr>stored := Some (fst (serialize record'))\<rparr>, snd (serialize record'))"

text \<open>
  The fields of a \<open>SessionCipher\<close>: the address identifier, the record cache of
  \<open>getRecord\<close> with its time stamp, and \<open>_encryptionContext\<close>.
\<close>

record cipher =
  addr_id :: string
  cachedRecord :: "session_record option"
  lastRecordUpdate :: int
  ourIdentityKeyCache :: "key_pair option"
  lastUsedCounter :: int

text \<open>
  \<open>getRecord()\<close> and \<open>storeRecord(record)\<close> at time \<open>now\<close>. The record that
  \<open>storeRecord\<close> caches is the object it was given, as \<open>removeOldSessions\<close> and
  \<open>serialize\<close> leave it.
\<close>

definition getRecord :: "cipher \<Rightarrow> storage \<Rightarrow> int \<Rightarrow> session_record option \<times> cipher" where
  "getRecord c st now =
     (if cachedRecord c \<noteq> None \<and> now - lastRecordUpdate c < 1000 then (cachedRecord c, c)
      else
        let record' = loadSession st now
        in (record', c\<lparr>cachedRecord := record', lastRecordUpdate := now\<rparr>))"

definition storeRecord :: "cipher \<Rightarrow> storage \<Rightarrow> session_record \<Rightarrow> int \<Rightarrow> cipher \<times> storage" where
  "storeRecord c st record' now =
     (let r = fst (snd (removeOldSessions record' now));
          sr = storeSession st r
      in (c\<lparr>cachedRecord := Some (snd sr), lastRecordUpdate := now\<rparr>, fst sr))"

definition getOurIdentityKey :: "cipher \<Rightarrow> storage \<Rightarrow> key_pair \<times> cipher" where
  "getOurIdentityKey c st =
     (case ourIdentityKeyCache c of
        Some k \<Rightarrow> (k, c)
      | None \<Rightarrow> (ourIdentity st, c\<lparr>ourIdentityKeyCache := Some (ourIdentity st)\<rparr>))"

text \<open>The session filed under \<open>k\<close> after a mutation in place.\<close>

definition putSession :: "session_record \<Rightarrow> string \<Rightarrow> session_entry \<Rightarrow> session_record" where
  "putSession r k session = r\<lparr>sessions := map (\<lambda>e. if fst e = k then (k, session) else e) (sessions r)\<rparr>"

text \<open>
  The part of \<open>encrypt\<close> between the trust check and \<open>storeRecord\<close>: it steps the
  sending chain, builds the \<open>WhisperMessage\<close> \<open>msg\<close> and the frame \<open>result\<close>, and
  returns both with the session and the engine's cache as it leaves them.
\<close>

definition encryptFrame ::
  "prims \<Rightarrow> engine \<Rightarrow> key_pair \<Rightarrow> session_entry \<Rightarrow> bytes
   \<Rightarrow> (error + whisper_message \<times> bytes) \<times> session_entry \<times> engine" where
  "encryptFrame P eng ourIdentityKey session data =
     (let ourKey = pubKey (ephemeralKeyPair (currentRatchet session))
      in case getChain session ourKey of
           None \<Rightarrow> (Inl (TypeError ''Cannot read properties of undefined''), session, eng)
         | Some ch \<Rightarrow>
             if chainType ch = RECEIVING
             then (Inl (Error ''Tried to encrypt on a receiving chain''), session, eng)
             else
               (case fillMessageKeys P ch (counter (chainKey ch) + 1) of
                  Inl e \<Rightarrow> (Inl e, session, eng)
                | Inr ch1 \<Rightarrow>
                    let s1 = session\<lparr>chains := (chains session)(ourKey \<mapsto> ch1)\<rparr>
                    in (case messageKeys ch1 (counter (chainKey ch1)) of
                          None \<Rightarrow> (Inl (TypeError ''input must be a Buffer''), s1, eng)
                        | Some messageKey \<Rightarrow>
                            (case engine_deriveSecrets P eng messageKey (alloc 32)
                                    (utf8 ''WhisperMessageKeys'') None of
                               (Inl e, eng1) \<Rightarrow> (Inl e, s1, eng1)
                             | (Inr keys, eng1) \<Rightarrow>
                                 let ch2 = ch1\<lparr>messageKeys :=
                                                 (messageKeys ch1)(counter (chainKey ch1) := None)\<rparr>;
                                     s2 = s1\<lparr>chains := (chains s1)(ourKey \<mapsto> ch2)\<rparr>
                                 in (case keys of
                                       [k0, k1, k2] \<Rightarrow>
                                         (case engine_encrypt P k0 data (take 16 k2) of
                                            Inl e \<Rightarrow> (Inl e, s2, eng1)
                                          | Inr ciphertext \<Rightarrow>
                                              let msg = \<lparr>wm_ephemeralKey = ourKey,
                                                         wm_counter = counter (chainKey ch2),
                                                         wm_previousCounter = previousCounter (currentRatchet s2),
                                                         wm_ciphertext = ciphertext\<rparr>;
                                                  msgBuf = encodeWhisperMessage P msg
                                              in (case buildMacInput (pubKey ourIdentityKey)
                                                         (remoteIdentityKey (indexInfo s2)) msgBuf of
                                                    Inl e \<Rightarrow> (Inl e, s2, eng1)
                                                  | Inr macInput \<Rightarrow>
                                                      let r = engine_calculateMAC P eng1 k1 macInput
                                                      in (case buildResult msgBuf (fst r) of
                                                            Inl e \<Rightarrow> (Inl e, s2, snd r)
                                                          | Inr result \<Rightarrow> (Inr (msg, result), s2, snd r))))
                                     | _ \<Rightarrow> (Inl (TypeError ''keys''), s2, eng1))))))"

text \<open>The value \<open>encrypt\<close> resolves to: \<open>{type, body, registrationId}\<close>.\<close>

record encrypted =
  msg_type :: nat
  body :: bytes
  enc_registrationId :: "int option"

text \<open>
  The wrapping at the end of \<open>encrypt\<close>. \<open>if (session.pendingPreKey.preKeyId)\<close> is
  false for a missing id and for 0.
\<close>

definition wrapFrame :: "prims \<Rightarrow> storage \<Rightarrow> key_pair \<Rightarrow> session_entry \<Rightarrow> bytes \<Rightarrow> error + encrypted" where
  "wrapFrame P st ourIdentityKey session result =
     (case pendingPreKey session of
        Some ppk \<Rightarrow>
          bindE (encodeTupleByte VERSION VERSION) (\<lambda>v.
            Inr \<lparr>msg_type = 3,
                 body = of_int v #
                   encodePreKeyWhisperMessage P
                     \<lparr>pkm_identityKey = pubKey ourIdentityKey,
                      pkm_registrationId = ourRegistrationId st,
                      pkm_baseKey = ppk_baseKey ppk,
                      pkm_signedPreKeyId = signedKeyId ppk,
                      pkm_message = result,
                      pkm_preKeyId = (case preKeyId ppk of
                                        None \<Rightarrow> None
                                      | Some i \<Rightarrow> if i = 0 then None else Some i)\<rparr>,
                 enc_registrationId = registrationId session\<rparr>)
      | None \<Rightarrow> Inr \<lparr>msg_type = 1, body = result, enc_registrationId = registrationId session\<rparr>)"

text \<open>
  \<open>encrypt(data)\<close> at time \<open>now\<close>. The record a job works on is the object the
  cipher caches, so the cache shows every mutation made in place, whether or not the
  job reaches \<open>storeRecord\<close>.
\<close>

definition encrypt ::
  "prims \<Rightarrow> engine \<Rightarrow> cipher \<Rightarrow> storage \<Rightarrow> bytes \<Rightarrow> int
   \<Rightarrow> (error + encrypted) \<times> cipher \<times> storage \<times> engine" where
  "encrypt P eng c st data now =
     (let ourIdentityKey = fst (getOurIdentityKey c st);
          c0 = snd (getOurIdentityKey c st)
      in case getRecord c0 st now of
        (None, c1) \<Rightarrow> (Inl (SessionError ''No sessions''), c1, st, eng)
      | (Some record0, c1) \<Rightarrow>
          (case getOpenSession record0 of
             (None, record1) \<Rightarrow>
               (Inl (SessionError ''No open session''), c1\<lparr>cachedRecord := Some record1\<rparr>, st, eng)
           | (Some (sk, session), record1) \<Rightarrow>
               let remoteIdentityKey' = remoteIdentityKey (indexInfo session)
               in if \<not> isTrustedIdentity st (addr_id c) remoteIdentityKey'
                  then (Inl (UntrustedIdentityKeyError (addr_id c) remoteIdentityKey'),
                        c1\<lparr>cachedRecord := Some record1\<rparr>, st, eng)
                  else
                    (case encryptFrame P eng ourIdentityKey session data of
                       (Inl e, session', eng') \<Rightarrow>
                         (Inl e, c1\<lparr>cachedRecord := Some (putSession record1 sk session')\<rparr>, st, eng')
                     | (Inr (msg, result), session', eng') \<Rightarrow>
                         let cs = storeRecord c1 st (putSession record1 sk session') now
                         in (wrapFrame P (snd cs) ourIdentityKey session' result,
                             (fst cs)\<lparr>lastUsedCounter := wm_counter msg\<rparr>, snd cs, eng'))))"

text \<open>
  \<open>decryptWithSessions(data, sessions)\<close>: the sessions are tried in the order given;
  \<open>fresh i\<close> is the key pair \<open>curve.generateKeyPair()\<close> would return during the
  i-th attempt. Every attempt leaves its session as \<open>doDecryptWhisperMessage\<close> left it.
\<close>

fun tryDecrypt ::
  "prims \<Rightarrow> key_pair \<Rightarrow> (nat \<Rightarrow> key_pair) \<Rightarrow> int \<Rightarrow> bytes \<Rightarrow> nat \<Rightarrow> string list \<Rightarrow> session_record
   \<Rightarrow> (error + string \<times> bytes) \<times> session_record" where
  "tryDecrypt P ourIdentityKey fresh now data i [] r =
     (Inl (SessionError ''No matching sessions found for message''), r)"
| "tryDecrypt P ourIdentityKey fresh now data i (k # ks) r =
     (case map_of (sessions r) k of
        None \<Rightarrow> tryDecrypt P ourIdentityKey fresh now data (Suc i) ks r
      | Some session \<Rightarrow>
          (case doDecryptWhisperMessage P ourIdentityKey (fresh i) data session of
             (Inr plaintext, session') \<Rightarrow>
               (Inr (k, plaintext),
                putSession r k (session'\<lparr>indexInfo := (indexInfo session')\<lparr>used := now\<rparr>\<rparr>))
           | (Inl e, session') \<Rightarrow>
               tryDecrypt P ourIdentityKey fresh now data (Suc i) ks (putSession r k session')))"

definition decryptWithSessions ::
  "prims \<Rightarrow> key_pair \<Rightarrow> (nat \<Rightarrow> key_pair) \<Rightarrow> int \<Rightarrow> bytes \<Rightarrow> string list \<Rightarrow> session_record
   \<Rightarrow> (error + string \<times> bytes) \<times> session_record" where
  "decryptWithSessions P ourIdentityKey fresh now data ks r =
     (if ks = [] then (Inl (SessionError ''No sessions available''), r)
      else tryDecrypt P ourIdentityKey fresh now data 0 ks r)"

definition decryptWhisperMessage ::
  "prims \<Rightarrow> cipher \<Rightarrow> storage \<Rightarrow> (nat \<Rightarrow> key_pair) \<Rightarrow> bytes \<Rightarrow> int
   \<Rightarrow> (error + bytes) \<times> cipher \<times> storage" where
  "decryptWhisperMessage P c st fresh data now =
     (case getRecord c st now of
        (None, c1) \<Rightarrow> (Inl (SessionError ''No session record''), c1, st)
      | (Some record0, c1) \<Rightarrow>
          (let ks = fst (getSessions record0);
               record1 = snd (getSessions record0)
           in case decryptWithSessions P (ourIdentity st) fresh now data ks record1 of
             (Inl e, record2) \<Rightarrow> (Inl e, c1\<lparr>cachedRecord := Some record2\<rparr>, st)
           | (Inr (k, plaintext), record2) \<Rightarrow>
               (case map_of (sessions record2) k of
                  None \<Rightarrow> (Inl (TypeError ''session''), c1\<lparr>cachedRecord := Some record2\<rparr>, st)
                | Some session \<Rightarrow>
                    let remoteIdentityKey' = remoteIdentityKey (indexInfo session)
                    in if \<not> isTrustedIdentity st (addr_id c) remoteIdentityKey'
                       then (Inl (UntrustedIdentityKeyError (addr_id c) remoteIdentityKey'),
                             c1\<lparr>cachedRecord := Some record2\<rparr>, st)
                       else
                         let cs = storeRecord c1 st record2 now
                         in (Inr plaintext, fst cs, snd cs))))"

section \<open>Sample data\<close>

text \<open>
  Small stand-ins for the external primitives, used to run the model on concrete
  inputs: a keyed function with 32-byte results that depends on the end of its data, an
  identity cipher, and a codec that writes a one-byte ephemeral key, the two counters
  as bytes and the ciphertext.
\<close>

definition demo_hmac :: "bytes \<Rightarrow> bytes \<Rightarrow> bytes" where
  "demo_hmac k d = take 32 (rev d @ k @ replicate 32 0)"

definition demo_encode :: "whisper_message \<Rightarrow> bytes" where
  "demo_encode m =
     wm_ephemeralKey m @ [of_int (wm_counter m), of_int (wm_previousCounter m)] @ wm_ciphertext m"

definition demo_decode :: "bytes \<Rightarrow> error + whisper_message" where
  "demo_decode b =
     (case b of
        e # c # p # ct \<Rightarrow>
          Inr \<lparr>wm_ephemeralKey = [e], wm_counter = uint c, wm_previousCounter = uint p, wm_ciphertext = ct\<rparr>
      | _ \<Rightarrow> Inl (Error ''index out of range''))"

definition demo_prims :: prims where
  "demo_prims =
     \<lparr>hmac_sha256 = demo_hmac,
      aes_cbc_encrypt = (\<lambda>k d iv. d),
      aes_cbc_decrypt = (\<lambda>k d iv. Inr d),
      calculateAgreement = (\<lambda>pub priv. Inr (take 32 (pub @ priv @ replicate 32 0))),
      encodeWhisperMessage = demo_encode,
      decodeWhisperMessage = demo_decode,
      encodePreKeyWhisperMessage = pkm_message\<rparr>"

definition demo_chain :: chain where
  "demo_chain =
     \<lparr>messageKeys = Map.empty,
      chainKey = \<lparr>counter = - 1, key = Some (replicate 32 7)\<rparr>,
      chainType = RECEIVING\<rparr>"

definition demo_closed_chain :: chain where
  "demo_closed_chain =
     \<lparr>messageKeys = Map.empty,
      chainKey = \<lparr>counter = - 1, key = None\<rparr>,
      chainType = RECEIVING\<rparr>"

text \<open>The \<open>indexInfo.closed\<close> time stamp of an entry of \<open>sessions\<close>.\<close>

definition closedOf :: "string \<times> session_entry \<Rightarrow> int" where
  "closedOf e = closed (indexInfo (snd e))"

text \<open>
  A session with the given \<open>closed\<close> stamp and registration id, a fresh record (as the
  constructor leaves it, built at time 0) around a list of entries, and \<open>n\<close> closed
  sessions with the keys a, aa, aaa, ... and growing \<open>closed\<close> stamps.
\<close>

definition demo_session :: "int \<Rightarrow> int option \<Rightarrow> session_entry" where
  "demo_session cl reg =
     \<lparr>registrationId = reg,
      currentRatchet = \<lparr>ephemeralKeyPair = \<lparr>pubKey = [5], privKey = [6]\<rparr>,
                        lastRemoteEphemeralKey = [9], previousCounter = 0,
                        rootKey = replicate 32 1\<rparr>,
      indexInfo = \<lparr>baseKey = [1], baseKeyType = THEIRS, closed = cl, used = 0, created = 0,
                   remoteIdentityKey = replicate 33 8\<rparr>,
      chains = Map.empty,
      pendingPreKey = None,
      serializedCache = None\<rparr>"

definition demo_record :: "(string \<times> session_entry) list \<Rightarrow> session_record" where
  "demo_record ss =
     \<lparr>sessions = ss, openSessionCache = CacheNull, sortedSessionsCache = None,
      lastCleanup = 0, cleanupInterval = 300000\<rparr>"

definition closed_sessions :: "nat \<Rightarrow> (string \<times> session_entry) list" where
  "closed_sessions n =
     map (\<lambda>i. (replicate (Suc i) CHR ''a'', demo_session (int i + 100) (Some 1))) [0..<n]"

text \<open>The engine with an empty \<open>_memoCache\<close>, as the constructor leaves it.\<close>

definition demo_engine :: engine where
  "demo_engine = \<lparr>macMemo = [], deriveMemo = []\<rparr>"

text \<open>
  A receiver's side: our identity key pair, a key pair for \<open>generateKeyPair\<close>, an open
  session with the receiving chain \<open>demo_chain\<close> filed under the remote ephemeral key
  9, a frame for that chain at counter 0 (version byte, encoded message with ciphertext
  1 2 3 4 5, the eight MAC bytes the stand-in HMAC gives), and the same frame with the
  last ciphertext byte changed.
\<close>

definition demo_identity :: key_pair where
  "demo_identity = \<lparr>pubKey = replicate 33 4, privKey = replicate 32 3\<rparr>"

definition demo_fresh :: key_pair where
  "demo_fresh = \<lparr>pubKey = [11], privKey = [12]\<rparr>"

definition demo_rx_session :: session_entry where
  "demo_rx_session = (demo_session (- 1) (Some 1))\<lparr>chains := [[9] \<mapsto> demo_chain]\<rparr>"

definition demo_frame :: bytes where
  "demo_frame = 0x33 # [9, 0, 0, 1, 2, 3, 4, 5] @ [5, 4, 3, 2, 1, 0, 0, 9]"

definition demo_tampered :: bytes where
  "demo_tampered = 0x33 # [9, 0, 0, 1, 2, 3, 4, 6] @ [5, 4, 3, 2, 1, 0, 0, 9]"

text \<open>
  A sender's side: an open session whose sending chain is filed under our ephemeral key
  5, a storage holding the document of a record with that one session (and trusting
  every identity or none),
  and a cipher for the address "bob" with empty caches.
\<close>

definition demo_tx_session :: session_entry where
  "demo_tx_session =
     (demo_session (- 1) (Some 1))\<lparr>chains := [[5] \<mapsto> demo_chain\<lparr>chainType := SENDING\<rparr>]\<rparr>"

definition demo_storage :: "session_entry \<Rightarrow> bool \<Rightarrow> storage" where
  "demo_storage session trust =
     \<lparr>stored = Some [(''a'', fst (serializeEntry session))],
      isTrustedIdentity = (\<lambda>_ _. trust),
      ourIdentity = demo_identity,
      ourRegistrationId = 77\<rparr>"

definition demo_cipher :: cipher where
  "demo_cipher =
     \<lparr>addr_id = ''bob'', cachedRecord = None, lastRecordUpdate = 0,
      ourIdentityKeyCache = None, lastUsedCounter = - 1\<rparr>"

text \<open>
  The counter of the chain filed under \<open>k\<close> in the session \<open>sk\<close> of the record that
  the cipher has cached (for reading a state off on concrete inputs).
\<close>

definition cachedChainCounter :: "cipher \<Rightarrow> string \<Rightarrow> bytes \<Rightarrow> int option" where
  "cachedChainCounter c sk k =
     (case cachedRecord c of
        None \<Rightarrow> None
      | Some r \<Rightarrow>
          (case map_of (sessions r) sk of
             None \<Rightarrow> None
           | Some session \<Rightarrow> map_option (\<lambda>ch. counter (chainKey ch)) (getChain session k)))"

text \<open>The same counter in the document that the storage holds.\<close>

definition storedChainCounter :: "storage \<Rightarrow> string \<Rightarrow> bytes \<Rightarrow> int option" where
  "storedChainCounter st sk k =
     (case stored st of
        None \<Rightarrow> None
      | Some data \<Rightarrow>
          (case map_of data sk of
             None \<Rightarrow> None
           | Some session \<Rightarrow> map_option (\<lambda>ch. counter (chainKey ch)) (chains session k)))"

text \<open>
  A second cipher for the same address that loaded the record at time 5 and still has
  it cached.
\<close>

definition demo_stale_cipher :: cipher where
  "demo_stale_cipher = snd (getRecord demo_cipher (demo_storage demo_tx_session True) 5)"

section \<open>The chain-key schedule\<close>

lemma fill_done: "target \<le> counter (chainKey ch) \<Longrightarrow> fillMessageKeys P ch target = Inr ch"
  by (simp add: fillMessageKeys.simps)

lemma fill_far: "target - counter (chainKey ch) > 2000 \<Longrightarrow>
  fillMessageKeys P ch target = Inl (SessionError ''Over 2000 messages into the future!'')"
  by (simp add: fillMessageKeys.simps)

lemma fill_closed: "counter (chainKey ch) < target \<Longrightarrow> target - counter (chainKey ch) \<le> 2000 \<Longrightarrow>
  key (chainKey ch) = None \<Longrightarrow>
  fillMessageKeys P ch target = Inl (SessionError ''Chain closed'')"
  by (simp add: fillMessageKeys.simps)

lemma fill_step: "counter (chainKey ch) < target \<Longrightarrow> target - counter (chainKey ch) \<le> 2000 \<Longrightarrow>
  key (chainKey ch) = Some k \<Longrightarrow>
  fillMessageKeys P ch target = fillMessageKeys P (chainKeyStep_spec P ch) target"
  by (subst fillMessageKeys.simps) (simp add: chainKeyStep_spec_def calculateMAC_def)

lemma step_counter:
  "key (chainKey ch) = Some k \<Longrightarrow>
   counter (chainKey (chainKeyStep_spec P ch)) = counter (chainKey ch) + 1"
  by (simp add: chainKeyStep_spec_def)

lemma step_key:
  "key (chainKey ch) = Some k \<Longrightarrow>
   key (chainKey (chainKeyStep_spec P ch)) = Some (hmac_sha256 P k [2])"
  by (simp add: chainKeyStep_spec_def)

lemma fill_funpow:
  "counter (chainKey ch) + int n = target \<Longrightarrow> n \<le> 2000 \<Longrightarrow> key (chainKey ch) = Some k \<Longrightarrow>
   fillMessageKeys P ch target = Inr ((chainKeyStep_spec P ^^ n) ch)"
proof (induction n arbitrary: ch k)
  case 0
  then show ?case by (simp add: fill_done)
next
  case (Suc n)
  have lt: "counter (chainKey ch) < target" using Suc.prems by simp
  have le: "target - counter (chainKey ch) \<le> 2000" using Suc.prems by simp
  have "fillMessageKeys P ch target = fillMessageKeys P (chainKeyStep_spec P ch) target"
    using fill_step [OF lt le Suc.prems(3)] .
  also have "\<dots> = Inr ((chainKeyStep_spec P ^^ n) (chainKeyStep_spec P ch))"
    using Suc.prems
    by (intro Suc.IH [where k = "hmac_sha256 P k [2]"]) (simp_all add: step_counter step_key)
  finally show ?case by (simp add: funpow_swap1)
qed

lemma steps_closed_form:
  "key (chainKey ch) = Some k \<Longrightarrow>
   counter (chainKey ((chainKeyStep_spec P ^^ n) ch)) = counter (chainKey ch) + int n \<and>
   key (chainKey ((chainKeyStep_spec P ^^ n) ch)) = Some (((\<lambda>x. hmac_sha256 P x [2]) ^^ n) k) \<and>
   chainType ((chainKeyStep_spec P ^^ n) ch) = chainType ch \<and>
   (\<forall>i. messageKeys ((chainKeyStep_spec P ^^ n) ch) i =
      (if counter (chainKey ch) < i \<and> i \<le> counter (chainKey ch) + int n
       then Some (hmac_sha256 P (((\<lambda>x. hmac_sha256 P x [2]) ^^ nat (i - counter (chainKey ch) - 1)) k) [1])
       else messageKeys ch i))"
proof (induction n)
  case 0
  then show ?case by auto
next
  case (Suc n)
  let ?c = "(chainKeyStep_spec P ^^ n) ch"
  from Suc have IH: "counter (chainKey ?c) = counter (chainKey ch) + int n"
     "key (chainKey ?c) = Some (((\<lambda>x. hmac_sha256 P x [2]) ^^ n) k)"
     "chainType ?c = chainType ch"
     "\<And>i. messageKeys ?c i =
      (if counter (chainKey ch) < i \<and> i \<le> counter (chainKey ch) + int n
       then Some (hmac_sha256 P (((\<lambda>x. hmac_sha256 P x [2]) ^^ nat (i - counter (chainKey ch) - 1)) k) [1])
       else messageKeys ch i)"
    by simp_all
  have eq: "(chainKeyStep_spec P ^^ Suc n) ch = chainKeyStep_spec P ?c" by simp
  show ?case
    unfolding eq
    by (simp add: chainKeyStep_spec_def IH)
qed

text \<open>
  Claim C2. The \<open>fillMessageKeys\<close> that \<open>encrypt\<close> and \<open>doDecryptWhisperMessage\<close> reach
  (the second definition of the class body) advances the chain one step at a time until
  the counter is the target: it is the specification's chain-key step iterated
  target - counter times. Each step stores HMAC(chain key, 0x01) under counter + 1,
  replaces the chain key by HMAC(chain key, 0x02) and adds one to the counter, so the
  seed under index i is HMAC(HMAC(. , 0x02)^(i - counter - 1)(k), 0x01); no HKDF is
  involved.
\<close>

theorem fillMessageKeys_schedule:
  assumes "counter (chainKey ch) < target"
    and "target - counter (chainKey ch) \<le> 2000"
    and "key (chainKey ch) = Some k"
  shows "\<exists>ch'. fillMessageKeys P ch target = Inr ch' \<and>
           ch' = (chainKeyStep_spec P ^^ nat (target - counter (chainKey ch))) ch \<and>
           counter (chainKey ch') = target \<and>
           key (chainKey ch') =
             Some (((\<lambda>x. hmac_sha256 P x [2]) ^^ nat (target - counter (chainKey ch))) k) \<and>
           chainType ch' = chainType ch \<and>
           (\<forall>i. messageKeys ch' i =
              (if counter (chainKey ch) < i \<and> i \<le> target
               then Some (hmac_sha256 P
                      (((\<lambda>x. hmac_sha256 P x [2]) ^^ nat (i - counter (chainKey ch) - 1)) k) [1])
               else messageKeys ch i))"
proof -
  let ?n = "nat (target - counter (chainKey ch))"
  have tgt: "counter (chainKey ch) + int ?n = target" using assms(1) by simp
  have "?n \<le> 2000" using assms(2) by simp
  from fill_funpow [OF tgt this assms(3)]
  have run: "fillMessageKeys P ch target = Inr ((chainKeyStep_spec P ^^ ?n) ch)" .
  from steps_closed_form [OF assms(3), where P = P and n = ?n] tgt run
  show ?thesis by simp
qed

theorem fillMessageKeys_schedule_witness:
  "counter (chainKey demo_chain) < 1 \<and> 1 - counter (chainKey demo_chain) \<le> 2000 \<and>
   key (chainKey demo_chain) = Some (replicate 32 7) \<and>
   (\<exists>ch'. fillMessageKeys demo_prims demo_chain 1 = Inr ch' \<and>
      ch' = (chainKeyStep_spec demo_prims ^^ 2) demo_chain \<and>
      counter (chainKey ch') = 1 \<and>
      messageKeys ch' 0 = Some (demo_hmac (replicate 32 7) [1]) \<and>
      messageKeys ch' 1 = Some (demo_hmac (demo_hmac (replicate 32 7) [2]) [1]))"
proof -
  have h1: "counter (chainKey demo_chain) < 1" by (simp add: demo_chain_def)
  have h2: "1 - counter (chainKey demo_chain) \<le> 2000" by (simp add: demo_chain_def)
  have h3: "key (chainKey demo_chain) = Some (replicate 32 7)" by (simp add: demo_chain_def)
  have c: "counter (chainKey demo_chain) = - 1" by (simp add: demo_chain_def)
  have n2: "nat (1 - counter (chainKey demo_chain)) = 2" by (simp add: demo_chain_def)
  obtain ch' where r: "fillMessageKeys demo_prims demo_chain 1 = Inr ch'"
      "ch' = (chainKeyStep_spec demo_prims ^^ nat (1 - counter (chainKey demo_chain))) demo_chain"
      "counter (chainKey ch') = 1"
      "\<forall>i. messageKeys ch' i =
              (if counter (chainKey demo_chain) < i \<and> i \<le> 1
               then Some (hmac_sha256 demo_prims
                      (((\<lambda>x. hmac_sha256 demo_prims x [2]) ^^
                          nat (i - counter (chainKey demo_chain) - 1)) (replicate 32 7)) [1])
               else messageKeys demo_chain i)"
    using fillMessageKeys_schedule [OF h1 h2 h3, of demo_prims] by blast
  have m0: "messageKeys ch' 0 = Some (demo_hmac (replicate 32 7) [1])"
    using r(4) [rule_format, of 0] by (simp add: c demo_prims_def)
  have m1: "messageKeys ch' 1 = Some (demo_hmac (demo_hmac (replicate 32 7) [2]) [1])"
    using r(4) [rule_format, of 1] by (simp add: c demo_prims_def)
  show ?thesis using h1 h2 h3 r(1,2,3) m0 m1 unfolding n2 by blast
qed

text \<open>
  Claim C8. The guards of \<open>fillMessageKeys\<close>, in the order the method checks them: it
  returns with the chain unchanged when the counter has reached the target; it fails
  with a SessionError when the target is more than 2000 ahead of the counter; and, when
  neither holds (the counter must still advance) and the chain key has been deleted, it
  fails with SessionError "Chain closed".
\<close>

theorem fillMessageKeys_guards:
  "(counter (chainKey ch) \<ge> target \<longrightarrow> fillMessageKeys P ch target = Inr ch) \<and>
   (target - counter (chainKey ch) > 2000 \<longrightarrow>
      fillMessageKeys P ch target = Inl (SessionError ''Over 2000 messages into the future!'')) \<and>
   (counter (chainKey ch) < target \<and> \<not> target - counter (chainKey ch) > 2000 \<and>
    key (chainKey ch) = None \<longrightarrow>
      fillMessageKeys P ch target = Inl (SessionError ''Chain closed''))"
  by (simp add: fill_done fill_far fill_closed)

theorem fillMessageKeys_guards_witness:
  "fillMessageKeys demo_prims demo_closed_chain (- 1) = Inr demo_closed_chain \<and>
   fillMessageKeys demo_prims demo_closed_chain 2000 =
     Inl (SessionError ''Over 2000 messages into the future!'') \<and>
   fillMessageKeys demo_prims demo_closed_chain 1999 = Inl (SessionError ''Chain closed'')"
  using fillMessageKeys_guards [of "- 1" demo_closed_chain demo_prims]
    fillMessageKeys_guards [of 2000 demo_closed_chain demo_prims]
    fillMessageKeys_guards [of 1999 demo_closed_chain demo_prims]
  by (simp add: demo_closed_chain_def)

section \<open>Session retirement\<close>

lemma oldest_foldl:
  "foldl oldest_step acc es = Some (k, s, t) \<Longrightarrow>
   (case acc of None \<Rightarrow> True
    | Some (k0, s0, t0) \<Rightarrow> t0 = closed (indexInfo s0) \<and> t0 \<noteq> - 1 \<and> P (k0, s0)) \<Longrightarrow>
   (\<And>e. e \<in> set es \<Longrightarrow> P e) \<Longrightarrow>
   t = closed (indexInfo s) \<and> t \<noteq> - 1 \<and> P (k, s) \<and>
   (\<forall>e \<in> set es. closed (indexInfo (snd e)) \<noteq> - 1 \<longrightarrow> t \<le> closed (indexInfo (snd e))) \<and>
   (case acc of None \<Rightarrow> True | Some (k0, s0, t0) \<Rightarrow> t \<le> t0)"
proof (induction es arbitrary: acc)
  case Nil
  then show ?case by (auto split: option.splits)
next
  case (Cons e es)
  let ?acc' = "oldest_step acc e"
  have run: "foldl oldest_step ?acc' es = Some (k, s, t)" using Cons.prems(1) by simp
  have inv: "(case ?acc' of None \<Rightarrow> True
    | Some (k0, s0, t0) \<Rightarrow> t0 = closed (indexInfo s0) \<and> t0 \<noteq> - 1 \<and> P (k0, s0))"
    using Cons.prems(2) Cons.prems(3) [of e]
    by (auto simp: oldest_step_def split: option.splits)
  have P': "\<And>e. e \<in> set es \<Longrightarrow> P e" using Cons.prems(3) by simp
  note IH = Cons.IH [OF run inv P']
  from IH have t_le: "(case ?acc' of None \<Rightarrow> True | Some (k0, s0, t0) \<Rightarrow> t \<le> t0)" by simp
  have le_e: "closed (indexInfo (snd e)) \<noteq> - 1 \<longrightarrow> t \<le> closed (indexInfo (snd e))"
    using t_le by (auto simp: oldest_step_def split: option.splits if_splits)
  have le_acc: "(case acc of None \<Rightarrow> True | Some (k0, s0, t0) \<Rightarrow> t \<le> t0)"
    using t_le by (auto simp: oldest_step_def split: option.splits if_splits)
  from IH have a: "t = closed (indexInfo s)" "t \<noteq> - 1" "P (k, s)"
    and b: "\<forall>e \<in> set es. closed (indexInfo (snd e)) \<noteq> - 1 \<longrightarrow> t \<le> closed (indexInfo (snd e))"
    by blast+
  show ?case using a b le_e le_acc by simp
qed

lemma find_oldest_Some:
  assumes "find_oldest es = Some (k, s, t)"
  shows "(k, s) \<in> set es" and "t = closed (indexInfo s)" and "t \<noteq> - 1"
    and "\<And>e. e \<in> set es \<Longrightarrow> closed (indexInfo (snd e)) \<noteq> - 1 \<Longrightarrow> t \<le> closed (indexInfo (snd e))"
  using oldest_foldl [where acc = None and P = "\<lambda>e. e \<in> set es" and es = es and k = k and s = s and t = t]
    assms
  by (auto simp: find_oldest_def)

lemma splice_key_distinct:
  "distinct (map fst es) \<Longrightarrow> (k, s) \<in> set es \<Longrightarrow> splice_key k es = remove1 (k, s) es"
proof (induction es)
  case Nil
  then show ?case by simp
next
  case (Cons e es)
  show ?case
  proof (cases "fst e = k")
    case True
    then have "e = (k, s)" using Cons.prems by (cases e) (auto simp: image_iff)
    then show ?thesis by (simp add: splice_key_def)
  next
    case False
    then have "(k, s) \<in> set es" "distinct (map fst es)" using Cons.prems by auto
    from Cons.IH [OF this(2,1)] False show ?thesis
      by (cases e) (auto simp: splice_key_def)
  qed
qed

lemma delete_key_distinct:
  "distinct (map fst es) \<Longrightarrow> (k, s) \<in> set es \<Longrightarrow> delete_key k es = remove1 (k, s) es"
proof (induction es)
  case Nil
  then show ?case by simp
next
  case (Cons e es)
  show ?case
  proof (cases "fst e = k")
    case True
    then have e: "e = (k, s)" using Cons.prems by (cases e) (auto simp: image_iff)
    have "k \<notin> fst ` set es" using Cons.prems e by auto
    then have "filter (\<lambda>e. fst e \<noteq> k) es = es" by (auto simp: filter_id_conv image_iff)
    then show ?thesis using e by (simp add: delete_key_def)
  next
    case False
    then have "(k, s) \<in> set es" "distinct (map fst es)" using Cons.prems by auto
    from Cons.IH [OF this(2,1)] False show ?thesis
      by (cases e) (auto simp: delete_key_def)
  qed
qed

lemma distinct_fst_remove1: "distinct (map fst es) \<Longrightarrow> distinct (map fst (remove1 x es))"
  by (induction es) (auto simp: image_iff dest: notin_set_remove1)

lemma loop_props:
  "distinct (map fst es) \<Longrightarrow> sess = es \<Longrightarrow>
   removeOldSessions_loop sess es cnt removed = (sess', cnt', removed') \<Longrightarrow>
   \<exists>new. removed' = removed @ new \<and> cnt' = cnt + int (length new) \<and>
     sess' = filter (\<lambda>e. e \<notin> set new) es \<and> set new \<subseteq> set es \<and>
     (\<forall>e \<in> set new. closedOf e \<noteq> - 1) \<and>
     sorted (map closedOf new) \<and>
     (\<forall>e \<in> set new. \<forall>e' \<in> set sess'. closedOf e' \<noteq> - 1 \<longrightarrow> closedOf e \<le> closedOf e') \<and>
     (new \<noteq> [] \<longrightarrow> int (length es) - cnt > 40)"
proof (induction sess es cnt removed arbitrary: sess' cnt' removed' rule: removeOldSessions_loop.induct)
  case (1 sess es cnt removed)
  note run = "1.prems"(3)
  show ?case
  proof (cases "int (length es) - cnt > CLOSED_SESSIONS_MAX")
    case False
    then have "(sess', cnt', removed') = (sess, cnt, removed)"
      using run by (simp add: removeOldSessions_loop.simps)
    then show ?thesis using "1.prems"(2) by (intro exI [of _ "[]"]) simp
  next
    case big: True
    show ?thesis
    proof (cases "find_oldest es")
      case None
      then have "(sess', cnt', removed') = (sess, cnt, removed)"
        using run big by (simp add: removeOldSessions_loop.simps)
      then show ?thesis using "1.prems"(2) by (intro exI [of _ "[]"]) simp
    next
      case (Some a)
      obtain k s t where a: "a = (k, s, t)" by (cases a)
      note fo = find_oldest_Some [OF Some [unfolded a]]
      show ?thesis
      proof (cases "k = []")
        case True
        then have "(sess', cnt', removed') = (sess, cnt, removed)"
          using run big Some a by (simp add: removeOldSessions_loop.simps)
        then show ?thesis using "1.prems"(2) by (intro exI [of _ "[]"]) simp
      next
        case False
        let ?es' = "remove1 (k, s) es"
        have sp: "splice_key k es = ?es'" using splice_key_distinct [OF "1.prems"(1) fo(1)] .
        have dl: "delete_key k sess = ?es'"
          using delete_key_distinct [OF "1.prems"(1) fo(1)] "1.prems"(2) by simp
        have d': "distinct (map fst ?es')" using distinct_fst_remove1 [OF "1.prems"(1)] .
        have run': "removeOldSessions_loop ?es' ?es' (cnt + 1) (removed @ [(k, s)]) = (sess', cnt', removed')"
          using run big Some a False sp dl by (subst (asm) removeOldSessions_loop.simps) simp
        have IH: "\<exists>new. removed' = (removed @ [(k, s)]) @ new \<and> cnt' = (cnt + 1) + int (length new) \<and>
           sess' = filter (\<lambda>e. e \<notin> set new) ?es' \<and> set new \<subseteq> set ?es' \<and>
           (\<forall>e \<in> set new. closedOf e \<noteq> - 1) \<and>
           sorted (map closedOf new) \<and>
           (\<forall>e \<in> set new. \<forall>e' \<in> set sess'. closedOf e' \<noteq> - 1 \<longrightarrow> closedOf e \<le> closedOf e') \<and>
           (new \<noteq> [] \<longrightarrow> int (length ?es') - (cnt + 1) > 40)"
          using "1.IH" [OF big Some a [symmetric] refl False, of sess' cnt' removed']
            d' run' sp dl
          by simp
        then obtain new where new: "removed' = (removed @ [(k, s)]) @ new"
           "cnt' = (cnt + 1) + int (length new)"
           "sess' = filter (\<lambda>e. e \<notin> set new) ?es'" "set new \<subseteq> set ?es'"
           "\<forall>e \<in> set new. closedOf e \<noteq> - 1"
           "sorted (map closedOf new)"
           "\<forall>e \<in> set new. \<forall>e' \<in> set sess'. closedOf e' \<noteq> - 1 \<longrightarrow> closedOf e \<le> closedOf e'"
          by blast
        have dist_es: "distinct es" using "1.prems"(1) by (rule distinct_map [THEN iffD1, THEN conjunct1])
        have set_es': "set ?es' = set es - {(k, s)}" using dist_es by simp
        have sub: "set new \<subseteq> set es" using new(4) set_es' by auto
        have ks_notin: "(k, s) \<notin> set new" using new(4) set_es' by auto
        have min_new: "\<forall>e \<in> set new. closedOf (k, s) \<le> closedOf e"
          using fo(2,4) new(5) sub by (auto simp: closedOf_def)
        have sess'_eq: "sess' = filter (\<lambda>e. e \<notin> set ((k, s) # new)) es"
        proof -
          have "?es' = filter (\<lambda>e. e \<noteq> (k, s)) es"
            using dist_es by (simp add: distinct_remove1_removeAll removeAll_filter_not_eq) metis
          then show ?thesis using new(3) by (auto simp: conj_commute intro: filter_cong)
        qed
        have min_rest: "\<forall>e' \<in> set sess'. closedOf e' \<noteq> - 1 \<longrightarrow> closedOf (k, s) \<le> closedOf e'"
          using fo(2,4) sess'_eq by (auto simp: closedOf_def)
        have ks_closed: "closedOf (k, s) \<noteq> - 1" using fo(2,3) by (simp add: closedOf_def)
        have big': "int (length es) - cnt > 40" using big by (simp add: CLOSED_SESSIONS_MAX_def)
        have c1: "removed' = removed @ ((k, s) # new)" using new(1) by simp
        have c2: "cnt' = cnt + int (length ((k, s) # new))" using new(2) by simp
        have c4: "set ((k, s) # new) \<subseteq> set es" using sub fo(1) by simp
        have c5: "\<forall>e \<in> set ((k, s) # new). closedOf e \<noteq> - 1" using new(5) ks_closed by simp
        have c6: "sorted (map closedOf ((k, s) # new))" using new(6) min_new by simp
        have c7: "\<forall>e \<in> set ((k, s) # new). \<forall>e' \<in> set sess'. closedOf e' \<noteq> - 1 \<longrightarrow> closedOf e \<le> closedOf e'"
          using new(7) min_rest by simp
        show ?thesis
          using c1 c2 sess'_eq c4 c5 c6 c7 big' by blast
      qed
    qed
  qed
qed

lemma removeOldSessions_facts:
  assumes "distinct (map fst (sessions r))"
    and "removeOldSessions r now = (n, r', removed)"
  shows "(now - lastCleanup r < cleanupInterval r \<longrightarrow> n = 0 \<and> r' = r \<and> removed = []) \<and>
         n = int (length removed) \<and>
         sessions r' = filter (\<lambda>e. e \<notin> set removed) (sessions r) \<and>
         set removed \<subseteq> set (sessions r) \<and>
         (\<forall>e \<in> set removed. isClosed (snd e)) \<and>
         sorted (map closedOf removed) \<and>
         (\<forall>e \<in> set removed. \<forall>e' \<in> set (sessions r'). isClosed (snd e') \<longrightarrow> closedOf e \<le> closedOf e') \<and>
         (length (sessions r) \<le> 40 \<longrightarrow> removed = [])"
proof (cases "now - lastCleanup r < cleanupInterval r")
  case True
  then have "n = 0" "r' = r" "removed = []"
    using assms(2) by (simp_all add: removeOldSessions_def)
  then show ?thesis by simp
next
  case False
  obtain sess cnt rem where loop:
    "removeOldSessions_loop (sessions r) (sessions r) 0 [] = (sess, cnt, rem)"
    by (cases "removeOldSessions_loop (sessions r) (sessions r) 0 []") auto
  have res: "n = cnt" "removed = rem" "sessions r' = sess"
    using assms(2) False loop by (auto simp: removeOldSessions_def invalidateCaches_def split: if_splits)
  from loop_props [OF assms(1) refl loop]
  obtain new where new: "rem = [] @ new" "cnt = 0 + int (length new)"
     "sess = filter (\<lambda>e. e \<notin> set new) (sessions r)" "set new \<subseteq> set (sessions r)"
     "\<forall>e \<in> set new. closedOf e \<noteq> - 1"
     "sorted (map closedOf new)"
     "\<forall>e \<in> set new. \<forall>e' \<in> set sess. closedOf e' \<noteq> - 1 \<longrightarrow> closedOf e \<le> closedOf e'"
     "new \<noteq> [] \<longrightarrow> int (length (sessions r)) - 0 > 40"
    by blast
  have rn: "removed = new" using new(1) res(2) by simp
  show ?thesis
    using False res new(2-8) unfolding rn
    by (auto simp: isClosed_def closedOf_def)
qed

text \<open>
  Claim C3, as amended. \<open>removeOldSessions()\<close> leaves the record as it is while less
  than \<open>_cleanupInterval\<close> has passed since \<open>_lastCleanup\<close>. Whenever it runs, it
  deletes closed sessions only, in ascending order of their \<open>indexInfo.closed\<close> stamp,
  every deleted session being at least as old as every closed session that stays, and
  it deletes nothing from a record of at most 40 sessions.
\<close>

theorem removeOldSessions_policy:
  assumes "distinct (map fst (sessions r))"
    and "removeOldSessions r now = (n, r', removed)"
  shows "(now - lastCleanup r < cleanupInterval r \<longrightarrow> n = 0 \<and> r' = r \<and> removed = []) \<and>
         n = int (length removed) \<and>
         sessions r' = filter (\<lambda>e. e \<notin> set removed) (sessions r) \<and>
         set removed \<subseteq> set (sessions r) \<and>
         (\<forall>e \<in> set removed. isClosed (snd e)) \<and>
         sorted (map closedOf removed) \<and>
         (\<forall>e \<in> set removed. \<forall>e' \<in> set (sessions r'). isClosed (snd e') \<longrightarrow> closedOf e \<le> closedOf e') \<and>
         (length (sessions r) \<le> 40 \<longrightarrow> removed = [])"
  using removeOldSessions_facts [OF assms] .

theorem removeOldSessions_policy_witness:
  "distinct (map fst (sessions (demo_record (closed_sessions 45)))) \<and>
   fst (removeOldSessions (demo_record (closed_sessions 45)) 300000) = 3 \<and>
   map fst (snd (snd (removeOldSessions (demo_record (closed_sessions 45)) 300000))) =
     [''a'', ''aa'', ''aaa''] \<and>
   sorted (map closedOf (snd (snd (removeOldSessions (demo_record (closed_sessions 45)) 300000)))) \<and>
   set (snd (snd (removeOldSessions (demo_record (closed_sessions 45)) 300000)))
     \<subseteq> set (sessions (demo_record (closed_sessions 45)))"
proof -
  let ?r = "demo_record (closed_sessions 45)"
  have d: "distinct (map fst (sessions ?r))" by code_simp
  have n: "fst (removeOldSessions ?r 300000) = 3" by code_simp
  have ks: "map fst (snd (snd (removeOldSessions ?r 300000))) = [''a'', ''aa'', ''aaa'']"
    by code_simp
  have run: "removeOldSessions ?r 300000 =
     (fst (removeOldSessions ?r 300000), fst (snd (removeOldSessions ?r 300000)),
      snd (snd (removeOldSessions ?r 300000)))"
    by simp
  from removeOldSessions_policy [OF d run] d n ks show ?thesis by blast
qed

theorem removeOldSessions_counterexample:
  "fst (removeOldSessions (demo_record (closed_sessions 41)) 1000) = 0 \<and>
   fst (snd (removeOldSessions (demo_record (closed_sessions 41)) 1000)) =
     demo_record (closed_sessions 41) \<and>
   length (sessions (fst (snd (removeOldSessions (demo_record (closed_sessions 41)) 1000)))) = 41"
  by (simp add: removeOldSessions_def demo_record_def closed_sessions_def)

text \<open>
  When the clean-up does run, the loop test \<open>sessionEntries.length - removedCount > 40\<close>
  counts every deletion twice (the entry is spliced out of \<open>sessionEntries\<close> and
  \<open>removedCount\<close> goes up), so 42 closed sessions are cut down to 41, and 45 to 42.
\<close>

lemma removeOldSessions_counts_twice:
  "fst (removeOldSessions (demo_record (closed_sessions 42)) 300000) = 1 \<and>
   length (sessions (fst (snd (removeOldSessions (demo_record (closed_sessions 42)) 300000)))) = 41 \<and>
   length (sessions (fst (snd (removeOldSessions (demo_record (closed_sessions 45)) 300000)))) = 42"
  by code_simp

section \<open>The open session of a record\<close>

text \<open>
  With an empty cache (\<open>_openSessionCache = null\<close>), \<open>haveOpenSession()\<close> answers for
  the first session that is not closed: true exactly when its \<open>registrationId\<close> is a
  number.
\<close>

lemma haveOpenSession_uncached:
  "openSessionCache r = CacheNull \<Longrightarrow>
   fst (haveOpenSession r) =
     (case find (\<lambda>e. \<not> isClosed (snd e)) (sessions r) of
        None \<Rightarrow> False
      | Some e \<Rightarrow> registrationId (snd e) \<noteq> None)"
  by (simp add: haveOpenSession_def getOpenSession_def searchOpenSession_def split: option.splits)

text \<open>
  Claim C10 fails once the cache is filled. On a record whose only session is open and
  has no numeric \<open>registrationId\<close>, the first \<open>haveOpenSession()\<close> answers false and
  caches the session; the second call, on the record the first one left, takes the
  cache branch, which does not look at \<open>registrationId\<close>, and answers true.
\<close>

theorem haveOpenSession_cached_divergence:
  "fst (haveOpenSession (demo_record [(''a'', demo_session (- 1) None)])) = False \<and>
   fst (getOpenSession (demo_record [(''a'', demo_session (- 1) None)])) =
     Some (''a'', demo_session (- 1) None) \<and>
   fst (haveOpenSession (snd (haveOpenSession (demo_record [(''a'', demo_session (- 1) None)])))) = True"
  by (simp add: haveOpenSession_def getOpenSession_def searchOpenSession_def demo_record_def
      demo_session_def isClosed_def)

section \<open>HKDF\<close>

lemma info_array_init:
  "buf_set (alloc (length info + 1 + 32)) info 32 = Inr (replicate 32 0 @ info @ [0])"
proof -
  have "length info + 1 + 32 = 32 + (length info + 1)" by simp
  then have "replicate (length info + 1 + 32) (0::8 word)
      = replicate 32 0 @ replicate (length info) 0 @ replicate 1 0"
    by (simp only: replicate_add)
  then show ?thesis by (simp add: buf_set_def alloc_def)
qed

lemma info_array_init' [simp]:
  "buf_set (alloc (33 + length info)) info 32 = Inr (replicate 32 0 @ info @ [0])"
  using info_array_init [of info] by (simp add: add.commute)

lemma hkdf_spec_Suc0: "hkdf_spec P input salt info (Suc 0) = [hmac_sha256 P (hmac_sha256 P salt input) (info @ [1])]"
  by (simp add: hkdf_spec_def)

lemma last_store: "(xs @ [a])[length (xs @ [a]) - 1 := b] = xs @ [b]"
  by simp

lemma block_store:
  "length t = 32 \<Longrightarrow> length pre = 32 \<Longrightarrow> buf_set (pre @ info @ [a]) t 0 = Inr (t @ info @ [a])"
  by (simp add: buf_set_def)

lemma last_store3: "length pre = 32 \<Longrightarrow>
   (pre @ info @ [a])[length (pre @ info @ [a]) - 1 := b] = pre @ info @ [b]"
  using last_store [of "pre @ info" a b] by simp

lemma last_store_norm [simp]: "length pre = 32 \<Longrightarrow>
   (pre @ info @ [a])[32 + length info := b] = pre @ info @ [b]"
  using last_store3 [of pre info a b] by simp

lemma hkdf_spec_1: "hkdf_spec P input salt info 1 = [hmac_sha256 P (hmac_sha256 P salt input) (info @ [1])]"
  by (simp add: hkdf_spec_def)

lemma hkdf_spec_2: "hkdf_spec P input salt info 2 =
  (let PRK = hmac_sha256 P salt input; t1 = hmac_sha256 P PRK (info @ [1])
   in [t1, hmac_sha256 P PRK (t1 @ info @ [2])])"
  by (simp add: hkdf_spec_def numeral_2_eq_2 Let_def)

lemma hkdf_spec_3: "hkdf_spec P input salt info 3 =
  (let PRK = hmac_sha256 P salt input; t1 = hmac_sha256 P PRK (info @ [1]);
       t2 = hmac_sha256 P PRK (t1 @ info @ [2])
   in [t1, t2, hmac_sha256 P PRK (t2 @ info @ [3])])"
  by (simp add: hkdf_spec_def numeral_3_eq_3 Let_def)

lemma expand_block_eq:
  "digest32 P \<Longrightarrow> length pre = 32 \<Longrightarrow> length (last sg) = 32 \<Longrightarrow>
   expand_block P PRK (pre @ info @ [a], sg) i =
     Inr (last sg @ info @ [i], sg @ [hmac_sha256 P PRK (last sg @ info @ [i])])"
  using last_store3 [of "last sg" info a i]
  by (simp add: expand_block_def block_store bindE_def calculateMAC_def Let_def)

lemma deriveSecrets_run:
  assumes d: "digest32 P" and s: "length salt = 32" and c: "1 \<le> chunks" "chunks \<le> 3"
  shows "deriveSecrets P input salt info (Some chunks) = Inr (hkdf_spec P input salt info (nat chunks))"
proof -
  have len: "\<And>k x. length (hmac_sha256 P k x) = 32" using d by (simp add: digest32_def)
  have ia1: "(replicate 32 (0::8 word) @ info @ [0])[length (replicate 32 (0::8 word) @ info @ [0]) - 1 := 1]
      = replicate 32 0 @ info @ [1]"
    using last_store3 [of "replicate 32 0" info 0 1] by simp
  from c have "chunks = 1 \<or> chunks = 2 \<or> chunks = 3" by auto
  then show ?thesis
  proof (elim disjE)
    assume "chunks = 1"
    then show ?thesis using s
      by (simp add: deriveSecrets_def info_array_init bindE_def Let_def ia1 calculateMAC_def hkdf_spec_1 hkdf_spec_Suc0
         )
  next
    assume "chunks = 2"
    then show ?thesis using s
      by (simp add: deriveSecrets_def info_array_init bindE_def Let_def ia1 calculateMAC_def hkdf_spec_2
          expand_block_eq [OF d] len)
  next
    assume "chunks = 3"
    then show ?thesis using s
      by (simp add: deriveSecrets_def info_array_init bindE_def Let_def ia1 calculateMAC_def hkdf_spec_3
          expand_block_eq [OF d] len)
  qed
qed

lemma hkdf_spec_lengths:
  "length (hkdf_spec P input salt info n) = n"
  "digest32 P \<Longrightarrow> \<forall>t \<in> set (hkdf_spec P input salt info n). length t = 32"
  by (auto simp: hkdf_spec_def digest32_def)

lemma deriveSecrets_default:
  assumes d: "digest32 P" and s: "length salt = 32" and c: "chunks0 = None \<or> chunks0 = Some 0"
  shows "deriveSecrets P input salt info chunks0 = Inr (hkdf_spec P input salt info 3)"
proof -
  have "deriveSecrets P input salt info chunks0 = deriveSecrets P input salt info (Some 3)"
    using c by (auto simp: deriveSecrets_def)
  then show ?thesis using deriveSecrets_run [OF d s, of 3 input info] by simp
qed

lemma deriveSecrets_errors:
  "length salt \<noteq> 32 \<Longrightarrow> deriveSecrets P input salt info chunks0 = Inl (Error ''Got salt of incorrect length'')"
  "length salt = 32 \<Longrightarrow> chunks \<noteq> 0 \<Longrightarrow> chunks < 1 \<or> chunks > 3 \<Longrightarrow>
     deriveSecrets P input salt info (Some chunks) = Inl (AssertionError ''chunks >= 1 && chunks <= 3'')"
  by (auto simp: deriveSecrets_def)

lemma map_of_list_all: "list_all Q m \<Longrightarrow> map_of m k = Some v \<Longrightarrow> Q (k, v)"
  by (auto simp: list_all_iff dest: map_of_SomeD)

lemma memo_set_list_all: "list_all Q m \<Longrightarrow> Q (k, v) \<Longrightarrow> list_all Q (memo_set m k v)"
  by (auto simp: memo_set_def list_all_iff)

lemma engine_calculateMAC_ok:
  assumes "memo_ok P eng"
  shows "fst (engine_calculateMAC P eng k d) = hmac_sha256 P k d"
    and "memo_ok P (snd (engine_calculateMAC P eng k d))"
proof -
  have m: "list_all (\<lambda>e. snd e = hmac_sha256 P (fst (fst e)) (snd (fst e))) (macMemo eng)"
    using assms by (simp add: memo_ok_def)
  show "fst (engine_calculateMAC P eng k d) = hmac_sha256 P k d"
    using map_of_list_all [OF m, of "(k, d)"]
    by (auto simp: engine_calculateMAC_def Let_def split: option.splits if_splits)
  show "memo_ok P (snd (engine_calculateMAC P eng k d))"
    using assms memo_set_list_all [OF m, of "(k, d)" "hmac_sha256 P k d"]
    by (auto simp: engine_calculateMAC_def Let_def memo_ok_def split: option.splits if_splits)
qed

lemma engine_expand_block_eq:
  assumes d: "digest32 P" and ok: "memo_ok P eng" and "length pre = 32" "length (last sg) = 32"
  shows "fst (engine_expand_block P PRK ((pre @ info @ [a], sg), eng) i) =
           Inr (last sg @ info @ [i], sg @ [hmac_sha256 P PRK (last sg @ info @ [i])])"
    and "memo_ok P (snd (engine_expand_block P PRK ((pre @ info @ [a], sg), eng) i))"
  using last_store3 [of "last sg" info a i] assms(3,4) engine_calculateMAC_ok [OF ok]
  by (simp_all add: engine_expand_block_def block_store Let_def)

lemma engine_mac_pair:
  assumes "memo_ok P eng"
  obtains e' where "engine_calculateMAC P eng k d = (hmac_sha256 P k d, e')" "memo_ok P e'"
  using engine_calculateMAC_ok [OF assms, of k d]
  by (cases "engine_calculateMAC P eng k d") auto

lemma engine_block_pair:
  assumes "digest32 P" "memo_ok P eng" "length pre = 32" "length (last sg) = 32"
  obtains e' where "engine_expand_block P PRK ((pre @ info @ [a], sg), eng) i =
           (Inr (last sg @ info @ [i], sg @ [hmac_sha256 P PRK (last sg @ info @ [i])]), e')"
     "memo_ok P e'"
  using engine_expand_block_eq [OF assms, of PRK info a i]
  by (cases "engine_expand_block P PRK ((pre @ info @ [a], sg), eng) i") auto

lemma memo_ok_derive_set:
  "memo_ok P e \<Longrightarrow> v = hkdf_spec P input salt info (nat chunks) \<Longrightarrow>
   memo_ok P (e\<lparr>deriveMemo := memo_set (deriveMemo e) (input, salt, info, chunks) v\<rparr>)"
  by (auto simp: memo_ok_def intro!: memo_set_list_all)

lemma engine_deriveSecrets_run:
  assumes d: "digest32 P" and ok: "memo_ok P eng" and s: "length salt = 32"
    and c: "1 \<le> chunks" "chunks \<le> 3"
  shows "fst (engine_deriveSecrets P eng input salt info (Some chunks)) =
           Inr (hkdf_spec P input salt info (nat chunks)) \<and>
         memo_ok P (snd (engine_deriveSecrets P eng input salt info (Some chunks)))"
proof (cases "map_of (deriveMemo eng) (input, salt, info, chunks)")
  case (Some v)
  have dm: "list_all (\<lambda>e. case fst e of (input, salt, info, chunks) \<Rightarrow>
                       snd e = hkdf_spec P input salt info (nat chunks)) (deriveMemo eng)"
    using ok by (simp add: memo_ok_def)
  from map_of_list_all [OF dm Some] have "v = hkdf_spec P input salt info (nat chunks)" by simp
  then show ?thesis using Some s c ok by (simp add: engine_deriveSecrets_def)
next
  case None
  have len: "\<And>k x. length (hmac_sha256 P k x) = 32" using d by (simp add: digest32_def)
  let ?PRK = "hmac_sha256 P salt input"
  let ?t1 = "hmac_sha256 P ?PRK (info @ [1])"
  let ?t2 = "hmac_sha256 P ?PRK (?t1 @ info @ [2])"
  let ?t3 = "hmac_sha256 P ?PRK (?t2 @ info @ [3])"
  have ia1: "(replicate 32 (0::8 word) @ info @ [0])[length (replicate 32 (0::8 word) @ info @ [0]) - 1 := 1]
      = replicate 32 0 @ info @ [1]"
    using last_store3 [of "replicate 32 0" info 0 1] by simp
  obtain e0 where e0: "engine_calculateMAC P eng salt input = (?PRK, e0)" "memo_ok P e0"
    using engine_mac_pair [OF ok] by blast
  obtain e1 where e1: "engine_calculateMAC P e0 ?PRK (info @ [1]) = (?t1, e1)" "memo_ok P e1"
    using engine_mac_pair [OF e0(2)] by blast
  obtain e2 where e2: "engine_expand_block P ?PRK ((replicate 32 0 @ info @ [1], [?t1]), e1) 2 =
      (Inr (?t1 @ info @ [2], [?t1, ?t2]), e2)" "memo_ok P e2"
    using engine_block_pair [OF d e1(2), of "replicate 32 0" "[?t1]" ?PRK info 1 2] len by auto
  obtain e3 where e3: "engine_expand_block P ?PRK ((?t1 @ info @ [2], [?t1, ?t2]), e2) 3 =
      (Inr (?t2 @ info @ [3], [?t1, ?t2, ?t3]), e3)" "memo_ok P e3"
    using engine_block_pair [OF d e2(2), of ?t1 "[?t1, ?t2]" ?PRK info 2 3] len by auto
  from c have "chunks = 1 \<or> chunks = 2 \<or> chunks = 3" by auto
  then show ?thesis
  proof (elim disjE)
    assume ch: "chunks = 1"
    have r: "hkdf_spec P input salt info (nat chunks) = [?t1]" using ch by (simp add: hkdf_spec_1 hkdf_spec_Suc0)
    show ?thesis using None s ch e0 e1 memo_ok_derive_set [OF e1(2), of "[?t1]" input salt info 1] r
      by (simp add: engine_deriveSecrets_def info_array_init Let_def ia1)
  next
    assume ch: "chunks = 2"
    have r: "hkdf_spec P input salt info (nat chunks) = [?t1, ?t2]" using ch by (simp add: hkdf_spec_2 Let_def)
    show ?thesis using None s ch e0 e1 e2 memo_ok_derive_set [OF e2(2), of "[?t1, ?t2]" input salt info 2] r
      by (simp add: engine_deriveSecrets_def info_array_init Let_def ia1)
  next
    assume ch: "chunks = 3"
    have r: "hkdf_spec P input salt info (nat chunks) = [?t1, ?t2, ?t3]" using ch by (simp add: hkdf_spec_3 Let_def)
    show ?thesis using None s ch e0 e1 e2 e3 memo_ok_derive_set [OF e3(2), of "[?t1, ?t2, ?t3]" input salt info 3] r
      by (simp add: engine_deriveSecrets_def info_array_init Let_def ia1)
  qed
qed

lemma engine_deriveSecrets_default:
  "engine_deriveSecrets P eng input salt info None = engine_deriveSecrets P eng input salt info (Some 3)"
  by (simp add: engine_deriveSecrets_def)

lemma engine_deriveSecrets_errors:
  "length salt \<noteq> 32 \<Longrightarrow>
     engine_deriveSecrets P eng input salt info chunks0 = (Inl (TypeError ''salt must be 32 bytes''), eng)"
  "length salt = 32 \<Longrightarrow> chunks < 1 \<or> chunks > 3 \<Longrightarrow>
     engine_deriveSecrets P eng input salt info (Some chunks) =
       (Inl (Error ''chunks must be between 1 and 3''), eng)"
  by (auto simp: engine_deriveSecrets_def)

lemma digest32_demo: "digest32 demo_prims"
  by (auto simp: digest32_def demo_prims_def demo_hmac_def min_def)

lemma memo_ok_demo: "memo_ok demo_prims demo_engine"
  by (simp add: memo_ok_def demo_engine_def)

text \<open>
  Where \<open>deriveSecrets\<close> does what the specification says. With 32-byte digests, and
  for the engine a memo cache that holds nothing but earlier results, both
  \<open>deriveSecrets\<close> return for a 32-byte salt and 1 \<le> chunks \<le> 3 exactly \<open>chunks\<close>
  values of 32 bytes, T(1) .. T(chunks) of HKDF with PRK = HMAC(salt, input). Both fail
  when the salt is not 32 bytes long. The engine's fails for every \<open>chunks\<close> outside
  1..3, and \<open>crypto.deriveSecrets\<close> for every \<open>chunks\<close> below 0 or above 3.
\<close>

lemma deriveSecrets_in_range:
  assumes "digest32 P" and "memo_ok P eng"
  shows "(length salt = 32 \<and> 1 \<le> chunks \<and> chunks \<le> 3 \<longrightarrow>
            deriveSecrets P input salt info (Some chunks) =
              Inr (hkdf_spec P input salt info (nat chunks)) \<and>
            fst (engine_deriveSecrets P eng input salt info (Some chunks)) =
              Inr (hkdf_spec P input salt info (nat chunks)) \<and>
            memo_ok P (snd (engine_deriveSecrets P eng input salt info (Some chunks))) \<and>
            length (hkdf_spec P input salt info (nat chunks)) = nat chunks \<and>
            (\<forall>t \<in> set (hkdf_spec P input salt info (nat chunks)). length t = 32)) \<and>
         (length salt \<noteq> 32 \<longrightarrow>
            deriveSecrets P input salt info (Some chunks) = Inl (Error ''Got salt of incorrect length'') \<and>
            fst (engine_deriveSecrets P eng input salt info (Some chunks)) =
              Inl (TypeError ''salt must be 32 bytes'')) \<and>
         (length salt = 32 \<and> (chunks < 1 \<or> chunks > 3) \<longrightarrow>
            fst (engine_deriveSecrets P eng input salt info (Some chunks)) =
              Inl (Error ''chunks must be between 1 and 3'')) \<and>
         (length salt = 32 \<and> (chunks < 0 \<or> chunks > 3) \<longrightarrow>
            deriveSecrets P input salt info (Some chunks) =
              Inl (AssertionError ''chunks >= 1 && chunks <= 3''))"
proof (intro conjI impI)
  assume a: "length salt = 32 \<and> 1 \<le> chunks \<and> chunks \<le> 3"
  then have s: "length salt = 32" and c: "1 \<le> chunks" "chunks \<le> 3" by simp_all
  show "deriveSecrets P input salt info (Some chunks) = Inr (hkdf_spec P input salt info (nat chunks))"
    using deriveSecrets_run [OF assms(1) s c] .
  show "fst (engine_deriveSecrets P eng input salt info (Some chunks)) =
          Inr (hkdf_spec P input salt info (nat chunks))"
    using engine_deriveSecrets_run [OF assms s c] by simp
  show "memo_ok P (snd (engine_deriveSecrets P eng input salt info (Some chunks)))"
    using engine_deriveSecrets_run [OF assms s c] by simp
  show "length (hkdf_spec P input salt info (nat chunks)) = nat chunks"
    by (rule hkdf_spec_lengths(1))
  show "\<forall>t \<in> set (hkdf_spec P input salt info (nat chunks)). length t = 32"
    using hkdf_spec_lengths(2) [OF assms(1)] .
next
  assume "length salt \<noteq> 32"
  then show "deriveSecrets P input salt info (Some chunks) = Inl (Error ''Got salt of incorrect length'')"
    and "fst (engine_deriveSecrets P eng input salt info (Some chunks)) =
          Inl (TypeError ''salt must be 32 bytes'')"
    by (simp_all add: deriveSecrets_errors(1) engine_deriveSecrets_errors(1))
next
  assume "length salt = 32 \<and> (chunks < 1 \<or> chunks > 3)"
  then show "fst (engine_deriveSecrets P eng input salt info (Some chunks)) =
              Inl (Error ''chunks must be between 1 and 3'')"
    by (simp add: engine_deriveSecrets_errors(2))
next
  assume "length salt = 32 \<and> (chunks < 0 \<or> chunks > 3)"
  then show "deriveSecrets P input salt info (Some chunks) =
              Inl (AssertionError ''chunks >= 1 && chunks <= 3'')"
    by (intro deriveSecrets_errors(2)) auto
qed

text \<open>
  Claim C6 says that \<open>deriveSecrets\<close> fails when \<open>chunks\<close> is outside 1..3. For
  \<open>chunks = 0\<close> the two implementations part: \<open>CryptoEngine.deriveSecrets\<close>, whose
  default value only replaces a missing argument, throws as the claim says, while
  \<open>crypto.deriveSecrets\<close> runs \<open>chunks = chunks || 3\<close> before its assertion
  \<open>chunks >= 1 && chunks <= 3\<close>, so that 0 becomes 3 and the call returns the three
  values T(1), T(2), T(3) instead of failing.
\<close>

theorem deriveSecrets_zero_chunks_divergence:
  assumes "digest32 P" and "length salt = 32"
  shows "deriveSecrets P input salt info (Some 0) = Inr (hkdf_spec P input salt info 3) \<and>
         length (hkdf_spec P input salt info 3) = 3 \<and>
         fst (engine_deriveSecrets P eng input salt info (Some 0)) =
           Inl (Error ''chunks must be between 1 and 3'')"
  using deriveSecrets_default [OF assms(1), of salt "Some 0" input info] assms(2)
  by (simp add: hkdf_spec_lengths(1) engine_deriveSecrets_errors(2))

theorem deriveSecrets_zero_chunks_witness:
  "digest32 demo_prims \<and> length (alloc 32) = 32 \<and>
   deriveSecrets demo_prims [1] (alloc 32) [2] (Some 0) =
     Inr (hkdf_spec demo_prims [1] (alloc 32) [2] 3) \<and>
   length (hkdf_spec demo_prims [1] (alloc 32) [2] 3) = 3 \<and>
   fst (engine_deriveSecrets demo_prims demo_engine [1] (alloc 32) [2] (Some 0)) =
     Inl (Error ''chunks must be between 1 and 3'')"
  using deriveSecrets_zero_chunks_divergence [OF digest32_demo, of "alloc 32" "[1]" "[2]" demo_engine]
    digest32_demo
  by (simp add: alloc_def)

section \<open>Decryption and the message-key cache\<close>

lemma fill_cases:
  obtains "target \<le> counter (chainKey ch)"
  | "target - counter (chainKey ch) > 2000"
  | "counter (chainKey ch) < target" "target - counter (chainKey ch) \<le> 2000" "key (chainKey ch) = None"
  | k where "counter (chainKey ch) < target" "target - counter (chainKey ch) \<le> 2000"
      "key (chainKey ch) = Some k"
  by (cases "key (chainKey ch)") force+

lemma fill_steps:
  assumes "counter (chainKey ch) < target" "target - counter (chainKey ch) \<le> 2000"
    "key (chainKey ch) = Some k"
  shows "\<exists>ch'. fillMessageKeys P ch target = Inr ch' \<and> counter (chainKey ch') = target \<and>
           chainType ch' = chainType ch"
proof -
  let ?n = "nat (target - counter (chainKey ch))"
  have tgt: "counter (chainKey ch) + int ?n = target" using assms(1) by simp
  have "?n \<le> 2000" using assms(2) by simp
  from fill_funpow [OF tgt this assms(3)] steps_closed_form [OF assms(3), where P = P and n = ?n] tgt
  show ?thesis by simp
qed

lemma fill_Inl:
  assumes "fillMessageKeys P ch target = Inl e"
  shows "e = SessionError ''Over 2000 messages into the future!'' \<or> e = SessionError ''Chain closed''"
proof (cases rule: fill_cases [of target ch])
  case 1 then show ?thesis using assms by (simp add: fill_done)
next
  case 2 then show ?thesis using assms by (simp add: fill_far)
next
  case 3 then show ?thesis using assms by (simp add: fill_closed)
next
  case (4 k)
  from fill_steps [OF 4, of P] assms show ?thesis by auto
qed

lemma fill_Inr:
  assumes "fillMessageKeys P ch target = Inr ch1"
  shows "target \<le> counter (chainKey ch1) \<and> chainType ch1 = chainType ch"
proof (cases rule: fill_cases [of target ch])
  case 1 then show ?thesis using assms by (simp add: fill_done)
next
  case 2 then show ?thesis using assms by (simp add: fill_far)
next
  case 3 then show ?thesis using assms by (simp add: fill_closed)
next
  case (4 k)
  from fill_steps [OF 4, of P] assms show ?thesis by auto
qed

text \<open>Only \<open>verifyMAC\<close> throws the MAC mismatch error.\<close>

lemma fill_not_mac: "fillMessageKeys P ch target = Inl e \<Longrightarrow> e \<noteq> mac_mismatch"
  by (auto dest!: fill_Inl simp: mac_mismatch_def)

lemma deriveSecrets_not_mac: "deriveSecrets P input salt info chunks0 = Inl e \<Longrightarrow> e \<noteq> mac_mismatch"
  by (auto simp: deriveSecrets_def expand_block_def bindE_def buf_set_def mac_mismatch_def Let_def
      split: if_splits sum.splits prod.splits)

lemma calculateRatchet_not_mac:
  "\<forall>a b. calculateAgreement P a b \<noteq> Inl mac_mismatch \<Longrightarrow>
   calculateRatchet P s remoteKey sending = Inl e \<Longrightarrow> e \<noteq> mac_mismatch"
  by (auto simp: calculateRatchet_def bindE_def Let_def addChain_def mac_mismatch_def
      split: sum.splits list.splits if_splits dest: deriveSecrets_not_mac [unfolded mac_mismatch_def])

lemma maybeStepRatchet_not_mac:
  "\<forall>a b. calculateAgreement P a b \<noteq> Inl mac_mismatch \<Longrightarrow>
   maybeStepRatchet P fresh s remoteKey pc = (Inl e, s1) \<Longrightarrow> e \<noteq> mac_mismatch"
  by (auto simp: maybeStepRatchet_def closePreviousChain_def bindE_def Let_def
      split: sum.splits if_splits option.splits
      dest: calculateRatchet_not_mac fill_not_mac)

lemma doDecrypt_Inr_D:
  assumes "doDecryptWhisperMessage P oid fresh buf s = (Inr pt, s')"
  shows "\<exists>m s1 ch ch1 mk u.
     \<not> (snd (decodeTupleByte (firstByte buf)) > 3 \<or> fst (decodeTupleByte (firstByte buf)) < 3) \<and>
     decodeWhisperMessage P (take (length buf - 9) (drop 1 buf)) = Inr m \<and>
     maybeStepRatchet P fresh s (wm_ephemeralKey m) (wm_previousCounter m) = (Inr u, s1) \<and>
     getChain s1 (wm_ephemeralKey m) = Some ch \<and> chainType ch \<noteq> SENDING \<and>
     fillMessageKeys P ch (wm_counter m) = Inr ch1 \<and>
     messageKeys ch1 (wm_counter m) = Some mk \<and>
     s' = s1\<lparr>chains := (chains s1)(wm_ephemeralKey m \<mapsto>
                 ch1\<lparr>messageKeys := (messageKeys ch1)(wm_counter m := None)\<rparr>),
              pendingPreKey := None\<rparr>"
  using assms
  by (auto simp: doDecryptWhisperMessage_def Let_def
      split: if_splits sum.splits prod.splits option.splits)

lemma doDecrypt_mac_D:
  assumes "doDecryptWhisperMessage P oid fresh buf s = (Inl mac_mismatch, s')"
    and "\<forall>a b. calculateAgreement P a b \<noteq> Inl mac_mismatch"
    and "decodeWhisperMessage P (take (length buf - 9) (drop 1 buf)) = Inr m"
  shows "\<exists>s1 ch ch1 mk u.
     \<not> (snd (decodeTupleByte (firstByte buf)) > 3 \<or> fst (decodeTupleByte (firstByte buf)) < 3) \<and>
     maybeStepRatchet P fresh s (wm_ephemeralKey m) (wm_previousCounter m) = (Inr u, s1) \<and>
     getChain s1 (wm_ephemeralKey m) = Some ch \<and> chainType ch \<noteq> SENDING \<and>
     fillMessageKeys P ch (wm_counter m) = Inr ch1 \<and>
     messageKeys ch1 (wm_counter m) = Some mk \<and>
     s' = s1\<lparr>chains := (chains s1)(wm_ephemeralKey m \<mapsto>
                 ch1\<lparr>messageKeys := (messageKeys ch1)(wm_counter m := None)\<rparr>)\<rparr>"
  using assms(1,3) maybeStepRatchet_not_mac [OF assms(2)] fill_not_mac [of P]
  by (auto simp: doDecryptWhisperMessage_def Let_def mac_mismatch_def
      split: if_splits sum.splits prod.splits option.splits)

lemma doDecrypt_again:
  assumes v: "\<not> (snd (decodeTupleByte (firstByte buf)) > 3 \<or> fst (decodeTupleByte (firstByte buf)) < 3)"
    and m: "decodeWhisperMessage P (take (length buf - 9) (drop 1 buf)) = Inr m"
    and c: "getChain s (wm_ephemeralKey m) = Some ch"
    and t: "chainType ch \<noteq> SENDING"
    and n: "wm_counter m \<le> counter (chainKey ch)"
    and k: "messageKeys ch (wm_counter m) = None"
  shows "doDecryptWhisperMessage P oid fresh buf s =
           (Inl (MessageCounterError ''Key used already or never filled''), s)"
proof -
  have st: "maybeStepRatchet P fresh s (wm_ephemeralKey m) (wm_previousCounter m) = (Inr (), s)"
    using c by (simp add: maybeStepRatchet_def)
  have f: "fillMessageKeys P ch (wm_counter m) = Inr ch" using n by (rule fill_done)
  have same: "s\<lparr>chains := (chains s)(wm_ephemeralKey m \<mapsto> ch)\<rparr> = s"
    using c by (simp add: getChain_def fun_upd_idem)
  show ?thesis
    using v m st c t f k same
    by (simp add: doDecryptWhisperMessage_def Let_def)
qed

text \<open>
  Claim C7. After a successful \<open>doDecryptWhisperMessage\<close> of a frame whose message
  has counter k, the receiving chain of the message's ephemeral key has no message key
  at k, and a second call on the same frame with the session as the first call left it
  fails with MessageCounterError (and leaves the session as it is).
\<close>

theorem doDecrypt_consumes_key:
  assumes "doDecryptWhisperMessage P oid fresh buf s = (Inr pt, s')"
    and "decodeWhisperMessage P (take (length buf - 9) (drop 1 buf)) = Inr m"
  shows "(\<exists>ch. getChain s' (wm_ephemeralKey m) = Some ch \<and> chainType ch = RECEIVING \<and>
            messageKeys ch (wm_counter m) = None) \<and>
         doDecryptWhisperMessage P oid fresh' buf s' =
           (Inl (MessageCounterError ''Key used already or never filled''), s')"
proof -
  from doDecrypt_Inr_D [OF assms(1)] assms(2)
  obtain s1 ch ch1 where
    v: "\<not> (snd (decodeTupleByte (firstByte buf)) > 3 \<or> fst (decodeTupleByte (firstByte buf)) < 3)"
    and c: "getChain s1 (wm_ephemeralKey m) = Some ch" "chainType ch \<noteq> SENDING"
    and f: "fillMessageKeys P ch (wm_counter m) = Inr ch1"
    and s': "s' = s1\<lparr>chains := (chains s1)(wm_ephemeralKey m \<mapsto>
                 ch1\<lparr>messageKeys := (messageKeys ch1)(wm_counter m := None)\<rparr>),
              pendingPreKey := None\<rparr>"
    by auto
  let ?ch2 = "ch1\<lparr>messageKeys := (messageKeys ch1)(wm_counter m := None)\<rparr>"
  have g: "getChain s' (wm_ephemeralKey m) = Some ?ch2" by (simp add: s' getChain_def)
  have ty: "chainType ?ch2 \<noteq> SENDING" using fill_Inr [OF f] c(2) by simp
  have n: "wm_counter m \<le> counter (chainKey ?ch2)" using fill_Inr [OF f] by simp
  have k: "messageKeys ?ch2 (wm_counter m) = None" by simp
  have "chainType ?ch2 = RECEIVING" using ty by (cases "chainType ?ch2") auto
  then show ?thesis
    using g k doDecrypt_again [OF v assms(2) g ty n k] by blast
qed

theorem doDecrypt_consumes_key_witness:
  "fst (doDecryptWhisperMessage demo_prims demo_identity demo_fresh demo_frame demo_rx_session) =
     Inr [1, 2, 3, 4, 5] \<and>
   decodeWhisperMessage demo_prims (take (length demo_frame - 9) (drop 1 demo_frame)) =
     Inr \<lparr>wm_ephemeralKey = [9], wm_counter = 0, wm_previousCounter = 0, wm_ciphertext = [1, 2, 3, 4, 5]\<rparr> \<and>
   (\<exists>ch. getChain (snd (doDecryptWhisperMessage demo_prims demo_identity demo_fresh demo_frame
                          demo_rx_session)) [9] = Some ch \<and>
         chainType ch = RECEIVING \<and> messageKeys ch 0 = None) \<and>
   fst (doDecryptWhisperMessage demo_prims demo_identity demo_fresh demo_frame
         (snd (doDecryptWhisperMessage demo_prims demo_identity demo_fresh demo_frame demo_rx_session))) =
     Inl (MessageCounterError ''Key used already or never filled'')"
proof -
  let ?r = "doDecryptWhisperMessage demo_prims demo_identity demo_fresh demo_frame demo_rx_session"
  have ok: "fst ?r = Inr [1, 2, 3, 4, 5]" by code_simp
  then have run: "?r = (Inr [1, 2, 3, 4, 5], snd ?r)" by (metis prod.collapse)
  have dec: "decodeWhisperMessage demo_prims (take (length demo_frame - 9) (drop 1 demo_frame)) =
     Inr \<lparr>wm_ephemeralKey = [9], wm_counter = 0, wm_previousCounter = 0, wm_ciphertext = [1, 2, 3, 4, 5]\<rparr>"
    by (simp add: demo_prims_def demo_decode_def demo_frame_def)
  from doDecrypt_consumes_key [OF run dec, of demo_fresh] ok dec show ?thesis by simp
qed

text \<open>
  Claim C1, as amended. \<open>doDecryptWhisperMessage\<close> deletes the message key at the
  frame's counter before it verifies the MAC. So when the call fails on the MAC
  comparison, the key is gone from the chain's \<open>messageKeys\<close> in the session the call
  leaves behind, and a second call on that session fails with MessageCounterError, on
  the same frame and on every well-formed frame whose message carries the same
  ephemeral key and the same counter (the unmodified frame, when the tampering left
  these two fields alone). (The MAC mismatch error is the one \<open>verifyMAC\<close> throws; the
  key agreement is taken not to throw that very error.)
\<close>

theorem doDecrypt_mac_failure_consumes_key:
  assumes "doDecryptWhisperMessage P oid fresh buf s = (Inl mac_mismatch, s')"
    and "\<forall>a b. calculateAgreement P a b \<noteq> Inl mac_mismatch"
    and "decodeWhisperMessage P (take (length buf - 9) (drop 1 buf)) = Inr m"
    and v': "\<not> (snd (decodeTupleByte (firstByte buf')) > 3 \<or> fst (decodeTupleByte (firstByte buf')) < 3)"
    and m': "decodeWhisperMessage P (take (length buf' - 9) (drop 1 buf')) = Inr m'"
    and same: "wm_ephemeralKey m' = wm_ephemeralKey m" "wm_counter m' = wm_counter m"
  shows "(\<exists>ch. getChain s' (wm_ephemeralKey m) = Some ch \<and> chainType ch = RECEIVING \<and>
            messageKeys ch (wm_counter m) = None) \<and>
         doDecryptWhisperMessage P oid fresh' buf s' =
           (Inl (MessageCounterError ''Key used already or never filled''), s') \<and>
         doDecryptWhisperMessage P oid fresh' buf' s' =
           (Inl (MessageCounterError ''Key used already or never filled''), s')"
proof -
  from doDecrypt_mac_D [OF assms(1-3)]
  obtain s1 ch ch1 where
    v: "\<not> (snd (decodeTupleByte (firstByte buf)) > 3 \<or> fst (decodeTupleByte (firstByte buf)) < 3)"
    and c: "getChain s1 (wm_ephemeralKey m) = Some ch" "chainType ch \<noteq> SENDING"
    and f: "fillMessageKeys P ch (wm_counter m) = Inr ch1"
    and s': "s' = s1\<lparr>chains := (chains s1)(wm_ephemeralKey m \<mapsto>
                 ch1\<lparr>messageKeys := (messageKeys ch1)(wm_counter m := None)\<rparr>)\<rparr>"
    by auto
  let ?ch2 = "ch1\<lparr>messageKeys := (messageKeys ch1)(wm_counter m := None)\<rparr>"
  have g: "getChain s' (wm_ephemeralKey m) = Some ?ch2" by (simp add: s' getChain_def)
  have ty: "chainType ?ch2 \<noteq> SENDING" using fill_Inr [OF f] c(2) by simp
  have n: "wm_counter m \<le> counter (chainKey ?ch2)" using fill_Inr [OF f] by simp
  have k: "messageKeys ?ch2 (wm_counter m) = None" by simp
  have g': "getChain s' (wm_ephemeralKey m') = Some ?ch2" using g same(1) by simp
  have n': "wm_counter m' \<le> counter (chainKey ?ch2)" using n same(2) by simp
  have k': "messageKeys ?ch2 (wm_counter m') = None" using same(2) by simp
  have "chainType ?ch2 = RECEIVING" using ty by (cases "chainType ?ch2") auto
  then show ?thesis
    using g k doDecrypt_again [OF v assms(3) g ty n k] doDecrypt_again [OF v' m' g' ty n' k']
    by blast
qed

lemma demo_agreement_total: "\<forall>a b. calculateAgreement demo_prims a b \<noteq> Inl mac_mismatch"
  by (simp add: demo_prims_def)

theorem doDecrypt_mac_failure_witness:
  "fst (doDecryptWhisperMessage demo_prims demo_identity demo_fresh demo_tampered demo_rx_session) =
     Inl mac_mismatch \<and>
   (\<exists>ch. getChain (snd (doDecryptWhisperMessage demo_prims demo_identity demo_fresh demo_tampered
                          demo_rx_session)) [9] = Some ch \<and>
         chainType ch = RECEIVING \<and> messageKeys ch 0 = None) \<and>
   fst (doDecryptWhisperMessage demo_prims demo_identity demo_fresh demo_tampered
         (snd (doDecryptWhisperMessage demo_prims demo_identity demo_fresh demo_tampered demo_rx_session))) =
     Inl (MessageCounterError ''Key used already or never filled'') \<and>
   fst (doDecryptWhisperMessage demo_prims demo_identity demo_fresh demo_frame
         (snd (doDecryptWhisperMessage demo_prims demo_identity demo_fresh demo_tampered demo_rx_session))) =
     Inl (MessageCounterError ''Key used already or never filled'')"
proof -
  let ?r = "doDecryptWhisperMessage demo_prims demo_identity demo_fresh demo_tampered demo_rx_session"
  have ok: "fst ?r = Inl mac_mismatch" by code_simp
  then have run: "?r = (Inl mac_mismatch, snd ?r)" by (metis prod.collapse)
  have dec: "decodeWhisperMessage demo_prims (take (length demo_tampered - 9) (drop 1 demo_tampered)) =
     Inr \<lparr>wm_ephemeralKey = [9], wm_counter = 0, wm_previousCounter = 0, wm_ciphertext = [1, 2, 3, 4, 6]\<rparr>"
    by (simp add: demo_prims_def demo_decode_def demo_tampered_def)
  have v': "\<not> (snd (decodeTupleByte (firstByte demo_frame)) > 3 \<or>
               fst (decodeTupleByte (firstByte demo_frame)) < 3)"
    by (simp add: decodeTupleByte_def firstByte_def demo_frame_def)
  have dec': "decodeWhisperMessage demo_prims (take (length demo_frame - 9) (drop 1 demo_frame)) =
     Inr \<lparr>wm_ephemeralKey = [9], wm_counter = 0, wm_previousCounter = 0, wm_ciphertext = [1, 2, 3, 4, 5]\<rparr>"
    by (simp add: demo_prims_def demo_decode_def demo_frame_def)
  from doDecrypt_mac_failure_consumes_key [OF run demo_agreement_total dec v' dec', of demo_fresh] ok
  show ?thesis by simp
qed

text \<open>
  The claim as stated fails: the tampered frame fails on the MAC; after that neither the
  tampered frame nor the unmodified one, which the session as it was before would have
  decrypted, goes through, because the key at counter 0 is no longer cached.
\<close>

theorem doDecrypt_mac_failure_counterexample:
  "fst (doDecryptWhisperMessage demo_prims demo_identity demo_fresh demo_frame demo_rx_session) =
     Inr [1, 2, 3, 4, 5] \<and>
   fst (doDecryptWhisperMessage demo_prims demo_identity demo_fresh demo_tampered demo_rx_session) =
     Inl mac_mismatch \<and>
   (case getChain (snd (doDecryptWhisperMessage demo_prims demo_identity demo_fresh demo_tampered
                         demo_rx_session)) [9] of
      None \<Rightarrow> None
    | Some ch \<Rightarrow> messageKeys ch 0) = None \<and>
   fst (doDecryptWhisperMessage demo_prims demo_identity demo_fresh demo_tampered
         (snd (doDecryptWhisperMessage demo_prims demo_identity demo_fresh demo_tampered demo_rx_session))) =
     Inl (MessageCounterError ''Key used already or never filled'') \<and>
   fst (doDecryptWhisperMessage demo_prims demo_identity demo_fresh demo_frame
         (snd (doDecryptWhisperMessage demo_prims demo_identity demo_fresh demo_tampered demo_rx_session))) =
     Inl (MessageCounterError ''Key used already or never filled'')"
  by code_simp

section \<open>Encryption\<close>

lemma replicate_store0: "(replicate (n + 9) (0::8 word))[0 := v] = v # replicate (n + 8) 0"
proof -
  have "n + 9 = Suc (n + 8)" by simp
  then show ?thesis by (simp only: replicate_Suc list_update_code)
qed

lemma store66: "length k1 = 33 \<Longrightarrow> length k2 = 33 \<Longrightarrow>
  (k1 @ k2 @ x # xs)[66 := v] = k1 @ k2 @ v # xs"
  by (simp add: list_update_append)

lemma buildResult_Inr:
  "buildResult msgBuf mac = Inr r \<Longrightarrow>
   r = 0x33 # msgBuf @ take 8 mac @ replicate (8 - length mac) 0"
  by (auto simp: buildResult_def bindE_def encodeTupleByte_def VERSION_def buf_set_def alloc_def
      replicate_store0 min_def split: if_splits sum.splits)

lemma buildResult_32:
  "length mac = 32 \<Longrightarrow> buildResult msgBuf mac = Inr (0x33 # msgBuf @ take 8 mac)"
  by (auto simp: buildResult_def bindE_def encodeTupleByte_def VERSION_def buf_set_def alloc_def
      replicate_store0 split: if_splits sum.splits)

lemma buildMacInput_33:
  "length k1 = 33 \<Longrightarrow> length k2 = 33 \<Longrightarrow>
   buildMacInput k1 k2 msgBuf = Inr (k1 @ k2 @ [0x33] @ msgBuf)"
proof -
  assume a: "length k1 = 33" "length k2 = 33"
  have "replicate (length msgBuf + 33 * 2 + 1) (0::8 word)
      = replicate 33 0 @ replicate 33 0 @ 0 # replicate (length msgBuf) 0"
  proof -
    have "length msgBuf + 33 * 2 + 1 = 33 + (33 + Suc (length msgBuf))" by simp
    then show ?thesis by (simp only: replicate_add replicate_Suc)
  qed
  then show ?thesis using a
    by (simp add: buildMacInput_def bindE_def encodeTupleByte_def VERSION_def buf_set_def alloc_def
        store66)
qed


lemma encryptFrame_Inr_D:
  assumes "encryptFrame P eng oid session data = (Inr (msg, result), s', eng')"
  shows "\<exists>ch ch1 mk k0 k1 k2 eng1 ct.
     getChain session (pubKey (ephemeralKeyPair (currentRatchet session))) = Some ch \<and>
     chainType ch \<noteq> RECEIVING \<and>
     fillMessageKeys P ch (counter (chainKey ch) + 1) = Inr ch1 \<and>
     messageKeys ch1 (counter (chainKey ch1)) = Some mk \<and>
     engine_deriveSecrets P eng mk (alloc 32) (utf8 ''WhisperMessageKeys'') None = (Inr [k0, k1, k2], eng1) \<and>
     engine_encrypt P k0 data (take 16 k2) = Inr ct \<and>
     msg = \<lparr>wm_ephemeralKey = pubKey (ephemeralKeyPair (currentRatchet session)),
            wm_counter = counter (chainKey ch1),
            wm_previousCounter = previousCounter (currentRatchet session),
            wm_ciphertext = ct\<rparr> \<and>
     s' = session\<lparr>chains := (chains session)(pubKey (ephemeralKeyPair (currentRatchet session)) \<mapsto>
                    ch1\<lparr>messageKeys := (messageKeys ch1)(counter (chainKey ch1) := None)\<rparr>)\<rparr> \<and>
     (\<exists>macInput.
        buildMacInput (pubKey oid) (remoteIdentityKey (indexInfo session)) (encodeWhisperMessage P msg)
          = Inr macInput \<and>
        buildResult (encodeWhisperMessage P msg) (fst (engine_calculateMAC P eng1 k1 macInput)) = Inr result \<and>
        eng' = snd (engine_calculateMAC P eng1 k1 macInput))"
  using assms
  by (auto simp: encryptFrame_def Let_def
      split: if_splits sum.splits prod.splits option.splits list.splits)


lemma fill_one:
  assumes "fillMessageKeys P ch (counter (chainKey ch) + 1) = Inr ch1"
  shows "\<exists>ck. key (chainKey ch) = Some ck \<and> ch1 = chainKeyStep_spec P ch \<and>
           counter (chainKey ch1) = counter (chainKey ch) + 1 \<and>
           messageKeys ch1 (counter (chainKey ch1)) = Some (hmac_sha256 P ck [1]) \<and>
           chainType ch1 = chainType ch"
proof (cases "key (chainKey ch)")
  case None
  then show ?thesis using assms fill_closed [of ch "counter (chainKey ch) + 1" P] by simp
next
  case (Some ck)
  have "fillMessageKeys P ch (counter (chainKey ch) + 1) = Inr ((chainKeyStep_spec P ^^ 1) ch)"
    by (rule fill_funpow [OF _ _ Some]) simp_all
  then have "ch1 = chainKeyStep_spec P ch" using assms by simp
  then show ?thesis using Some by (simp add: chainKeyStep_spec_def)
qed

lemma wrapFrame_Inr:
  assumes "wrapFrame P st oid session result = Inr out"
  shows "(msg_type out = 1 \<and> body out = result) \<or>
   (msg_type out = 3 \<and>
    (\<exists>pk. pkm_message pk = result \<and> body out = 0x33 # encodePreKeyWhisperMessage P pk))"
proof (cases "pendingPreKey session")
  case None
  then show ?thesis using assms by (auto simp: wrapFrame_def)
next
  case (Some ppk)
  let ?pk = "\<lparr>pkm_identityKey = pubKey oid,
                      pkm_registrationId = ourRegistrationId st,
                      pkm_baseKey = ppk_baseKey ppk,
                      pkm_signedPreKeyId = signedKeyId ppk,
                      pkm_message = result,
                      pkm_preKeyId = (case preKeyId ppk of
                                        None \<Rightarrow> None
                                      | Some i \<Rightarrow> if i = 0 then None else Some i)\<rparr>"
  have "out = \<lparr>msg_type = 3, body = 0x33 # encodePreKeyWhisperMessage P ?pk,
                enc_registrationId = registrationId session\<rparr>"
    using assms Some by (simp add: wrapFrame_def bindE_def encodeTupleByte_def VERSION_def)
  then have "msg_type out = 3" "pkm_message ?pk = result"
    "body out = 0x33 # encodePreKeyWhisperMessage P ?pk"
    by simp_all
  then show ?thesis by blast
qed

lemma encrypt_Inr_D:
  assumes run: "encrypt P eng c st data now = (Inr out, c', st', eng')"
    and gr: "getRecord (snd (getOurIdentityKey c st)) st now = (Some r0, c1)"
    and os: "getOpenSession r0 = (Some (sk, session), record1)"
  shows "isTrustedIdentity st (addr_id c) (remoteIdentityKey (indexInfo session)) \<and>
     (\<exists>msg result session'.
       encryptFrame P eng (fst (getOurIdentityKey c st)) session data = (Inr (msg, result), session', eng') \<and>
       wrapFrame P st' (fst (getOurIdentityKey c st)) session' result = Inr out \<and>
       st' = snd (storeRecord c1 st (putSession record1 sk session') now) \<and>
       c' = (fst (storeRecord c1 st (putSession record1 sk session') now))\<lparr>lastUsedCounter := wm_counter msg\<rparr>)"
proof -
  let ?oid = "fst (getOurIdentityKey c st)"
  have tr: "isTrustedIdentity st (addr_id c) (remoteIdentityKey (indexInfo session))"
    using run gr os by (simp add: encrypt_def Let_def split: if_splits)
  obtain res session' engx where ef: "encryptFrame P eng ?oid session data = (res, session', engx)"
    by (cases "encryptFrame P eng ?oid session data") auto
  show ?thesis
  proof (cases res)
    case (Inl e)
    then show ?thesis using run gr os tr ef by (simp add: encrypt_def Let_def)
  next
    case (Inr mr)
    obtain msg result where mr: "mr = (msg, result)" by (cases mr)
    show ?thesis using run gr os tr ef Inr mr by (auto simp: encrypt_def Let_def)
  qed
qed

lemma encrypt_Inr_record:
  assumes run: "encrypt P eng c st data now = (Inr out, c', st', eng')"
  shows "\<exists>r0 c1 sk session record1.
     getRecord (snd (getOurIdentityKey c st)) st now = (Some r0, c1) \<and>
     getOpenSession r0 = (Some (sk, session), record1)"
proof -
  obtain ro c1 where gr: "getRecord (snd (getOurIdentityKey c st)) st now = (ro, c1)"
    by (cases "getRecord (snd (getOurIdentityKey c st)) st now") auto
  show ?thesis
  proof (cases ro)
    case None
    then show ?thesis using run gr by (simp add: encrypt_def Let_def)
  next
    case (Some r0)
    obtain so record1 where os: "getOpenSession r0 = (so, record1)"
      by (cases "getOpenSession r0") auto
    show ?thesis
    proof (cases so)
      case None
      then show ?thesis using run gr Some os by (simp add: encrypt_def Let_def)
    next
      case (Some a)
      then show ?thesis using gr \<open>ro = Some r0\<close> os by (cases a) auto
    qed
  qed
qed

text \<open>
  Claim C5. Every successful \<open>encrypt\<close> returns, as the body (type 1) or as the
  \<open>message\<close> field of the PreKeyWhisperMessage it wraps (type 3), the frame made of
  the version byte 0x33, the encoded WhisperMessage and the first 8 bytes of
  HMAC-SHA256(macKey, ourIdentityPub || theirIdentityPub || 0x33 || encoded message),
  where macKey is the second HKDF block of the message-key seed. Identity public keys
  are the 33-byte keys of the data model, digests are 32 bytes long, and the engine's
  memo cache holds nothing but earlier results.
\<close>

theorem encrypt_frame_format:
  assumes run: "encrypt P eng c st data now = (Inr out, c', st', eng')"
    and d: "digest32 P" and ok: "memo_ok P eng"
    and r0: "fst (getRecord (snd (getOurIdentityKey c st)) st now) = Some r0"
    and os: "fst (getOpenSession r0) = Some (sk, session)"
    and l1: "length (pubKey (fst (getOurIdentityKey c st))) = 33"
    and l2: "length (remoteIdentityKey (indexInfo session)) = 33"
  shows "\<exists>ch ck. getChain session (pubKey (ephemeralKeyPair (currentRatchet session))) = Some ch \<and>
           key (chainKey ch) = Some ck \<and>
           (let keys = hkdf_spec P (hmac_sha256 P ck [1]) (alloc 32) (utf8 ''WhisperMessageKeys'') 3;
                msgBuf = encodeWhisperMessage P
                  \<lparr>wm_ephemeralKey = pubKey (ephemeralKeyPair (currentRatchet session)),
                   wm_counter = counter (chainKey ch) + 1,
                   wm_previousCounter = previousCounter (currentRatchet session),
                   wm_ciphertext = aes_cbc_encrypt P (keys ! 0) data (take 16 (keys ! 2))\<rparr>;
                frame = [0x33] @ msgBuf @
                  take 8 (hmac_sha256 P (keys ! 1)
                    (pubKey (fst (getOurIdentityKey c st)) @ remoteIdentityKey (indexInfo session) @
                     [0x33] @ msgBuf))
            in (msg_type out = 1 \<and> body out = frame) \<or>
               (msg_type out = 3 \<and>
                (\<exists>pk. pkm_message pk = frame \<and> body out = 0x33 # encodePreKeyWhisperMessage P pk)))"
proof -
  let ?oid = "fst (getOurIdentityKey c st)"
  let ?ourKey = "pubKey (ephemeralKeyPair (currentRatchet session))"
  obtain c1 where gr: "getRecord (snd (getOurIdentityKey c st)) st now = (Some r0, c1)"
    using r0 by (cases "getRecord (snd (getOurIdentityKey c st)) st now") auto
  obtain record1 where gos: "getOpenSession r0 = (Some (sk, session), record1)"
    using os by (cases "getOpenSession r0") auto
  from encrypt_Inr_D [OF run gr gos]
  obtain msg result session' where
    ef: "encryptFrame P eng ?oid session data = (Inr (msg, result), session', eng')"
    and wf: "wrapFrame P st' ?oid session' result = Inr out"
    by blast
  from encryptFrame_Inr_D [OF ef]
  obtain ch ch1 mk k0 k1 k2 eng1 ct macInput where
    ch: "getChain session ?ourKey = Some ch"
    and f: "fillMessageKeys P ch (counter (chainKey ch) + 1) = Inr ch1"
    and mk: "messageKeys ch1 (counter (chainKey ch1)) = Some mk"
    and ds: "engine_deriveSecrets P eng mk (alloc 32) (utf8 ''WhisperMessageKeys'') None = (Inr [k0, k1, k2], eng1)"
    and ee: "engine_encrypt P k0 data (take 16 k2) = Inr ct"
    and msg: "msg = \<lparr>wm_ephemeralKey = ?ourKey, wm_counter = counter (chainKey ch1),
            wm_previousCounter = previousCounter (currentRatchet session), wm_ciphertext = ct\<rparr>"
    and mi: "buildMacInput (pubKey ?oid) (remoteIdentityKey (indexInfo session)) (encodeWhisperMessage P msg)
          = Inr macInput"
    and br: "buildResult (encodeWhisperMessage P msg) (fst (engine_calculateMAC P eng1 k1 macInput)) = Inr result"
    by (elim exE conjE) (rule that; assumption)
  from fill_one [OF f] mk obtain ck where
    ck: "key (chainKey ch) = Some ck" and c1: "counter (chainKey ch1) = counter (chainKey ch) + 1"
    and mk': "mk = hmac_sha256 P ck [1]"
    by auto
  let ?keys = "hkdf_spec P (hmac_sha256 P ck [1]) (alloc 32) (utf8 ''WhisperMessageKeys'') 3"
  let ?msg = "\<lparr>wm_ephemeralKey = pubKey (ephemeralKeyPair (currentRatchet session)),
                   wm_counter = counter (chainKey ch) + 1,
                   wm_previousCounter = previousCounter (currentRatchet session),
                   wm_ciphertext = aes_cbc_encrypt P (?keys ! 0) data (take 16 (?keys ! 2))\<rparr>"
  let ?msgBuf = "encodeWhisperMessage P ?msg"
  let ?frame = "[0x33] @ ?msgBuf @
                  take 8 (hmac_sha256 P (?keys ! 1)
                    (pubKey (fst (getOurIdentityKey c st)) @ remoteIdentityKey (indexInfo session) @
                     [0x33] @ ?msgBuf))"
  have "fst (engine_deriveSecrets P eng mk (alloc 32) (utf8 ''WhisperMessageKeys'') (Some 3)) = Inr ?keys \<and>
        memo_ok P (snd (engine_deriveSecrets P eng mk (alloc 32) (utf8 ''WhisperMessageKeys'') (Some 3)))"
    using engine_deriveSecrets_run [OF d ok, of "alloc 32" 3 mk "utf8 ''WhisperMessageKeys''"] mk'
    by (simp add: alloc_def)
  then have keys: "?keys = [k0, k1, k2]" and ok1: "memo_ok P eng1"
    using ds by (simp_all add: engine_deriveSecrets_default)
  have ct: "ct = aes_cbc_encrypt P k0 data (take 16 k2)"
    using ee by (auto simp: engine_encrypt_def split: if_splits)
  have msg_eq: "msg = ?msg" unfolding keys using msg c1 ct by simp
  have macInput: "macInput = pubKey ?oid @ remoteIdentityKey (indexInfo session) @ [0x33] @ ?msgBuf"
    using mi buildMacInput_33 [OF l1 l2] msg_eq by simp
  have mac: "fst (engine_calculateMAC P eng1 k1 macInput) = hmac_sha256 P k1 macInput"
    using engine_calculateMAC_ok(1) [OF ok1] .
  have len: "length (hmac_sha256 P k1 macInput) = 32" using d by (simp add: digest32_def)
  have "result = 0x33 # encodeWhisperMessage P msg @ take 8 (hmac_sha256 P k1 macInput)"
    using br buildResult_32 [OF len] mac by simp
  also have "k1 = ?keys ! 1" unfolding keys by simp
  finally have result: "result = ?frame" unfolding macInput msg_eq by simp
  from wrapFrame_Inr [OF wf]
  have "(msg_type out = 1 \<and> body out = ?frame) \<or>
        (msg_type out = 3 \<and>
          (\<exists>pk. pkm_message pk = ?frame \<and> body out = 0x33 # encodePreKeyWhisperMessage P pk))"
    unfolding result .
  with ch ck show ?thesis unfolding Let_def by blast
qed

lemma demo_load:
  "loadSession (demo_storage demo_tx_session trust) now =
     Some ((demo_record [(''a'', demo_tx_session)])\<lparr>lastCleanup := now\<rparr>)"
  "loadSession (demo_storage demo_rx_session trust) now =
     Some ((demo_record [(''a'', demo_rx_session)])\<lparr>lastCleanup := now\<rparr>)"
  by (simp_all add: loadSession_def demo_storage_def deserialize_def deserializeEntry_def
      serializeEntry_def Let_def demo_record_def demo_tx_session_def demo_rx_session_def demo_session_def)

theorem encrypt_frame_format_witness:
  "digest32 demo_prims \<and> memo_ok demo_prims demo_engine \<and>
   fst (encrypt demo_prims demo_engine demo_cipher (demo_storage demo_tx_session True) [1, 2, 3] 5) =
     Inr \<lparr>msg_type = 1, body = [51, 5, 0, 0, 1, 2, 3, 3, 2, 1, 0, 0, 5, 51, 8],
          enc_registrationId = Some 1\<rparr> \<and>
   length (pubKey (fst (getOurIdentityKey demo_cipher (demo_storage demo_tx_session True)))) = 33 \<and>
   length (remoteIdentityKey (indexInfo demo_tx_session)) = 33 \<and>
   (\<exists>ch ck. getChain demo_tx_session (pubKey (ephemeralKeyPair (currentRatchet demo_tx_session))) = Some ch \<and>
      key (chainKey ch) = Some ck \<and>
      (let keys = hkdf_spec demo_prims (hmac_sha256 demo_prims ck [1]) (alloc 32)
                    (utf8 ''WhisperMessageKeys'') 3;
           msgBuf = encodeWhisperMessage demo_prims
             \<lparr>wm_ephemeralKey = pubKey (ephemeralKeyPair (currentRatchet demo_tx_session)),
              wm_counter = counter (chainKey ch) + 1,
              wm_previousCounter = previousCounter (currentRatchet demo_tx_session),
              wm_ciphertext = aes_cbc_encrypt demo_prims (keys ! 0) [1, 2, 3] (take 16 (keys ! 2))\<rparr>;
           frame = [0x33] @ msgBuf @
             take 8 (hmac_sha256 demo_prims (keys ! 1)
               (pubKey (fst (getOurIdentityKey demo_cipher (demo_storage demo_tx_session True))) @
                remoteIdentityKey (indexInfo demo_tx_session) @ [0x33] @ msgBuf))
       in body \<lparr>msg_type = 1, body = [51, 5, 0, 0, 1, 2, 3, 3, 2, 1, 0, 0, 5, 51, 8],
                 enc_registrationId = Some 1\<rparr> = frame))"
proof -
  let ?st = "demo_storage demo_tx_session True"
  let ?E = "encrypt demo_prims demo_engine demo_cipher ?st [1, 2, 3] 5"
  let ?out = "\<lparr>msg_type = 1, body = [51, 5, 0, 0, 1, 2, 3, 3, 2, 1, 0, 0, 5, 51, 8],
          enc_registrationId = Some 1\<rparr>"
  have f: "fst ?E = Inr ?out" by code_simp
  have run: "?E = (Inr ?out, fst (snd ?E), fst (snd (snd ?E)), snd (snd (snd ?E)))"
    using f by (metis prod.collapse)
  have r0: "fst (getRecord (snd (getOurIdentityKey demo_cipher ?st)) ?st 5) =
      Some ((demo_record [(''a'', demo_tx_session)])\<lparr>lastCleanup := 5\<rparr>)"
    by (simp add: getRecord_def getOurIdentityKey_def demo_cipher_def demo_load Let_def)
  have os: "fst (getOpenSession ((demo_record [(''a'', demo_tx_session)])\<lparr>lastCleanup := 5\<rparr>)) =
      Some (''a'', demo_tx_session)"
    by (simp add: getOpenSession_def searchOpenSession_def demo_record_def isClosed_def
        demo_tx_session_def demo_session_def)
  have l1: "length (pubKey (fst (getOurIdentityKey demo_cipher ?st))) = 33"
    by (simp add: getOurIdentityKey_def demo_cipher_def demo_storage_def demo_identity_def)
  have l2: "length (remoteIdentityKey (indexInfo demo_tx_session)) = 33"
    by (simp add: demo_tx_session_def demo_session_def)
  have m: "msg_type ?out \<noteq> 3" by simp
  from encrypt_frame_format [OF run digest32_demo memo_ok_demo r0 os l1 l2] m
  have c: "\<exists>ch ck. getChain demo_tx_session (pubKey (ephemeralKeyPair (currentRatchet demo_tx_session))) = Some ch \<and>
      key (chainKey ch) = Some ck \<and>
      (let keys = hkdf_spec demo_prims (hmac_sha256 demo_prims ck [1]) (alloc 32)
                    (utf8 ''WhisperMessageKeys'') 3;
           msgBuf = encodeWhisperMessage demo_prims
             \<lparr>wm_ephemeralKey = pubKey (ephemeralKeyPair (currentRatchet demo_tx_session)),
              wm_counter = counter (chainKey ch) + 1,
              wm_previousCounter = previousCounter (currentRatchet demo_tx_session),
              wm_ciphertext = aes_cbc_encrypt demo_prims (keys ! 0) [1, 2, 3] (take 16 (keys ! 2))\<rparr>;
           frame = [0x33] @ msgBuf @
             take 8 (hmac_sha256 demo_prims (keys ! 1)
               (pubKey (fst (getOurIdentityKey demo_cipher (demo_storage demo_tx_session True))) @
                remoteIdentityKey (indexInfo demo_tx_session) @ [0x33] @ msgBuf))
       in body ?out = frame)"
    unfolding Let_def by blast
  show ?thesis using digest32_demo memo_ok_demo f l1 l2 c by (intro conjI)
qed

lemma find_Some_in: "find Q xs = Some x \<Longrightarrow> Q x \<and> x \<in> set xs"
  by (induction xs) (auto split: if_splits)

lemma getOpenSession_Some:
  assumes "getOpenSession r0 = (Some (sk, session), r1)"
  shows "(sk, session) \<in> set (sessions r0)" and "\<not> isClosed session"
    and "r1 = r0\<lparr>openSessionCache := CacheSession sk\<rparr>"
proof -
  have search: "searchOpenSession r0 = (Some (sk, session), r1) \<Longrightarrow>
      (sk, session) \<in> set (sessions r0) \<and> \<not> isClosed session \<and>
      r1 = r0\<lparr>openSessionCache := CacheSession sk\<rparr>"
    by (auto simp: searchOpenSession_def split: option.splits dest!: find_Some_in)
  have "(sk, session) \<in> set (sessions r0) \<and> \<not> isClosed session \<and>
      r1 = r0\<lparr>openSessionCache := CacheSession sk\<rparr>"
  proof (cases "openSessionCache r0")
    case CacheNull
    then show ?thesis using assms search by (simp add: getOpenSession_def)
  next
    case CacheFalse
    then show ?thesis using assms search by (simp add: getOpenSession_def)
  next
    case (CacheSession k)
    show ?thesis
    proof (cases "map_of (sessions r0) k")
      case None
      then show ?thesis using assms search CacheSession by (simp add: getOpenSession_def)
    next
      case (Some s)
      show ?thesis
      proof (cases "isClosed s")
        case True
        then show ?thesis using assms search CacheSession Some by (simp add: getOpenSession_def)
      next
        case False
        then have "sk = k" "session = s" "r1 = r0"
          using assms CacheSession Some by (simp_all add: getOpenSession_def)
        then show ?thesis using False Some CacheSession by (auto dest: map_of_SomeD)
      qed
    qed
  qed
  then show "(sk, session) \<in> set (sessions r0)" and "\<not> isClosed session"
    and "r1 = r0\<lparr>openSessionCache := CacheSession sk\<rparr>" by simp_all
qed

lemma find_unique:
  "distinct (map fst xs) \<Longrightarrow> (k, s) \<in> set xs \<Longrightarrow> Q (k, s) \<Longrightarrow>
   (\<forall>e \<in> set xs. Q e \<longrightarrow> fst e = k) \<Longrightarrow> find Q xs = Some (k, s)"
proof (induction xs)
  case Nil
  then show ?case by simp
next
  case (Cons x xs)
  show ?case
  proof (cases "Q x")
    case True
    then have "fst x = k" using Cons.prems(4) by simp
    then have "x = (k, s)" using Cons.prems(1,2) by (cases x) (auto simp: image_iff)
    then show ?thesis using True by simp
  next
    case False
    then have "(k, s) \<in> set xs" using Cons.prems(2,3) by auto
    then show ?thesis using Cons False by simp
  qed
qed

lemma getOpenSession_unique:
  assumes d: "distinct (map fst (sessions r))"
    and m: "(sk, session) \<in> set (sessions r)"
    and o: "\<not> isClosed session"
    and u: "\<forall>e \<in> set (sessions r). \<not> isClosed (snd e) \<longrightarrow> fst e = sk"
    and c: "openSessionCache r = CacheSession sk \<or> openSessionCache r = CacheNull"
  shows "fst (getOpenSession r) = Some (sk, session)"
proof -
  have f: "find (\<lambda>e. \<not> isClosed (snd e)) (sessions r) = Some (sk, session)"
    using find_unique [OF d m, of "\<lambda>e. \<not> isClosed (snd e)"] o u by simp
  have mo: "map_of (sessions r) sk = Some session" using d m by simp
  from c show ?thesis
  proof
    assume "openSessionCache r = CacheSession sk"
    then show ?thesis using mo o by (simp add: getOpenSession_def)
  next
    assume "openSessionCache r = CacheNull"
    then show ?thesis using f by (simp add: getOpenSession_def searchOpenSession_def)
  qed
qed

lemma putSession_sessions:
  "map fst (sessions (putSession r k s)) = map fst (sessions r)"
  "openSessionCache (putSession r k s) = openSessionCache r"
  by (auto simp: putSession_def)

lemma putSession_set:
  "set (sessions (putSession r k s)) =
     {e \<in> set (sessions r). fst e \<noteq> k} \<union> (if k \<in> fst ` set (sessions r) then {(k, s)} else {})"
  by (auto simp: putSession_def image_iff)

lemma removeOldSessions_cache:
  "openSessionCache (fst (snd (removeOldSessions r now))) = openSessionCache r \<or>
   openSessionCache (fst (snd (removeOldSessions r now))) = CacheNull"
  by (auto simp: removeOldSessions_def invalidateCaches_def split: prod.splits)

text \<open>What \<open>storeRecord\<close> keeps of a record: the open sessions stay, in their order.\<close>

lemma removeOldSessions_keeps_open:
  assumes d: "distinct (map fst (sessions r))"
  shows "distinct (map fst (sessions (fst (snd (removeOldSessions r now)))))"
    and "set (sessions (fst (snd (removeOldSessions r now)))) \<subseteq> set (sessions r)"
    and "e \<in> set (sessions r) \<Longrightarrow> \<not> isClosed (snd e) \<Longrightarrow>
         e \<in> set (sessions (fst (snd (removeOldSessions r now))))"
proof -
  obtain n r' removed where run: "removeOldSessions r now = (n, r', removed)"
    by (cases "removeOldSessions r now") auto
  from removeOldSessions_facts [OF d run]
  have s: "sessions r' = filter (\<lambda>e. e \<notin> set removed) (sessions r)"
    and cl: "\<forall>e \<in> set removed. isClosed (snd e)"
    by simp_all
  show "distinct (map fst (sessions (fst (snd (removeOldSessions r now)))))"
    using d by (simp add: run s distinct_map_filter)
  show "set (sessions (fst (snd (removeOldSessions r now)))) \<subseteq> set (sessions r)"
    by (auto simp: run s)
  show "e \<in> set (sessions r) \<Longrightarrow> \<not> isClosed (snd e) \<Longrightarrow>
         e \<in> set (sessions (fst (snd (removeOldSessions r now))))"
    using cl by (auto simp: run s)
qed

lemma serializeEntry_fields:
  "chains (snd (serializeEntry s)) = chains s"
  "currentRatchet (snd (serializeEntry s)) = currentRatchet s"
  "indexInfo (snd (serializeEntry s)) = indexInfo s"
  "pendingPreKey (snd (serializeEntry s)) = pendingPreKey s"
  "registrationId (snd (serializeEntry s)) = registrationId s"
  by (simp_all add: serializeEntry_def Let_def split: option.splits)

lemma serializeEntry_isClosed: "isClosed (snd (serializeEntry s)) = isClosed s"
  by (simp add: isClosed_def serializeEntry_fields)

lemma serialize_sessions:
  "sessions (snd (serialize r)) = map (\<lambda>e. (fst e, snd (serializeEntry (snd e)))) (sessions r)"
  "map fst (sessions (snd (serialize r))) = map fst (sessions r)"
  "openSessionCache (snd (serialize r)) = openSessionCache r"
  by (simp_all add: serialize_def comp_def)

lemma getRecord_hit:
  "cachedRecord c = Some r \<Longrightarrow> now - lastRecordUpdate c < 1000 \<Longrightarrow> getRecord c st now = (Some r, c)"
  by (simp add: getRecord_def)

lemma storeRecord_record:
  "cachedRecord (fst (storeRecord c st r now)) = Some (snd (serialize (fst (snd (removeOldSessions r now)))))"
  "lastRecordUpdate (fst (storeRecord c st r now)) = now"
  "stored (snd (storeRecord c st r now)) = Some (fst (serialize (fst (snd (removeOldSessions r now)))))"
  by (simp_all add: storeRecord_def storeSession_def Let_def)

lemma getOurIdentityKey_cached:
  "cachedRecord (snd (getOurIdentityKey c st)) = cachedRecord c"
  "lastRecordUpdate (snd (getOurIdentityKey c st)) = lastRecordUpdate c"
  by (simp_all add: getOurIdentityKey_def split: option.splits)

text \<open>
  Claim C9, as amended. Two successive successful \<open>encrypt\<close> calls through one
  \<open>SessionCipher\<close>, the second on the cipher and the storage as the first one left
  them (so with no ratchet step in between) and less than 1000 ms after the first, so
  that \<open>getRecord\<close> gives it the record the first call left in the cipher's cache, on a
  record with at most one open session: both frames carry a WhisperMessage for the same
  ephemeral key, and the counter written into the second is the counter of the first
  plus one.
\<close>

theorem encrypt_counter_increases:
  assumes e1: "encrypt P eng c st data now = (Inr out1, c1, st1, eng1)"
    and e2: "encrypt P eng1 c1 st1 data2 now2 = (Inr out2, c2, st2, eng2)"
    and hit: "now2 - now < 1000"
    and r0: "fst (getRecord (snd (getOurIdentityKey c st)) st now) = Some r0"
    and d: "distinct (map fst (sessions r0))"
    and one: "\<forall>e \<in> set (sessions r0). \<forall>e' \<in> set (sessions r0).
                \<not> isClosed (snd e) \<and> \<not> isClosed (snd e') \<longrightarrow> e = e'"
  shows "\<exists>m1 m2 t1 t2.
           ((msg_type out1 = 1 \<and> body out1 = 0x33 # encodeWhisperMessage P m1 @ t1) \<or>
            (msg_type out1 = 3 \<and>
             (\<exists>pk. pkm_message pk = 0x33 # encodeWhisperMessage P m1 @ t1 \<and>
                   body out1 = 0x33 # encodePreKeyWhisperMessage P pk))) \<and>
           ((msg_type out2 = 1 \<and> body out2 = 0x33 # encodeWhisperMessage P m2 @ t2) \<or>
            (msg_type out2 = 3 \<and>
             (\<exists>pk. pkm_message pk = 0x33 # encodeWhisperMessage P m2 @ t2 \<and>
                   body out2 = 0x33 # encodePreKeyWhisperMessage P pk))) \<and>
           length t1 = 8 \<and> length t2 = 8 \<and>
           wm_ephemeralKey m2 = wm_ephemeralKey m1 \<and>
           wm_counter m2 = wm_counter m1 + 1 \<and>
           lastUsedCounter c1 = wm_counter m1 \<and>
           lastUsedCounter c2 = wm_counter m2"
proof -
  obtain c1a where gr1: "getRecord (snd (getOurIdentityKey c st)) st now = (Some r0, c1a)"
    using r0 by (cases "getRecord (snd (getOurIdentityKey c st)) st now") auto
  from encrypt_Inr_record [OF e1] gr1
  obtain sk session record1 where gos1: "getOpenSession r0 = (Some (sk, session), record1)"
    by auto
  from encrypt_Inr_D [OF e1 gr1 gos1]
  obtain msg1 result1 session1 where
    ef1: "encryptFrame P eng (fst (getOurIdentityKey c st)) session data = (Inr (msg1, result1), session1, eng1)"
    and wf1: "wrapFrame P st1 (fst (getOurIdentityKey c st)) session1 result1 = Inr out1"
    and st1: "st1 = snd (storeRecord c1a st (putSession record1 sk session1) now)"
    and c1: "c1 = (fst (storeRecord c1a st (putSession record1 sk session1) now))\<lparr>lastUsedCounter := wm_counter msg1\<rparr>"
    by blast
  let ?rp = "putSession record1 sk session1"
  let ?r' = "fst (snd (removeOldSessions ?rp now))"
  let ?r'' = "snd (serialize ?r')"
  let ?session1' = "snd (serializeEntry session1)"
  let ?ourKey = "pubKey (ephemeralKeyPair (currentRatchet session))"
  note os = getOpenSession_Some [OF gos1]
  from encryptFrame_Inr_D [OF ef1]
  obtain ch ch1 macInput1 engx k1x where
    ch: "getChain session ?ourKey = Some ch"
    and msg1: "wm_counter msg1 = counter (chainKey ch1)" "wm_ephemeralKey msg1 = ?ourKey"
    and s1: "session1 = session\<lparr>chains := (chains session)(?ourKey \<mapsto>
                    ch1\<lparr>messageKeys := (messageKeys ch1)(counter (chainKey ch1) := None)\<rparr>)\<rparr>"
    and br1: "buildResult (encodeWhisperMessage P msg1) (fst (engine_calculateMAC P engx k1x macInput1)) = Inr result1"
    by (elim exE conjE) (rule that; simp)
  have open1: "\<not> isClosed ?session1'"
    using os(2) unfolding serializeEntry_isClosed by (simp add: s1 isClosed_def)
  have key1: "pubKey (ephemeralKeyPair (currentRatchet ?session1')) = ?ourKey"
    by (simp add: serializeEntry_fields s1)
  have chain1: "getChain ?session1' ?ourKey =
      Some (ch1\<lparr>messageKeys := (messageKeys ch1)(counter (chainKey ch1) := None)\<rparr>)"
    by (simp add: getChain_def serializeEntry_fields s1)
  \<comment> \<open>the record that the first call leaves in the cipher's cache\<close>
  have sk_in: "sk \<in> fst ` set (sessions record1)" using os(1,3) by (force simp: image_iff)
  have d_rp: "distinct (map fst (sessions ?rp))" using d os(3) by (simp add: putSession_sessions)
  have in_rp: "(sk, session1) \<in> set (sessions ?rp)" using sk_in by (simp add: putSession_set)
  have uniq_r0: "\<forall>e \<in> set (sessions r0). \<not> isClosed (snd e) \<longrightarrow> fst e = sk"
    using one os(1,2) by fastforce
  have uniq_rp: "\<forall>e \<in> set (sessions ?rp). \<not> isClosed (snd e) \<longrightarrow> fst e = sk"
    using uniq_r0 os(3) by (auto simp: putSession_set split: if_splits)
  have cache_rp: "openSessionCache ?rp = CacheSession sk" using os(3) by (simp add: putSession_sessions)
  note keep = removeOldSessions_keeps_open [OF d_rp, where now = now]
  have open1': "\<not> isClosed session1" using open1 by (simp add: serializeEntry_isClosed)
  have in_r': "(sk, session1) \<in> set (sessions ?r')" using keep(3) [OF in_rp] open1' by simp
  have uniq_r': "\<forall>e \<in> set (sessions ?r'). \<not> isClosed (snd e) \<longrightarrow> fst e = sk"
    using uniq_rp keep(2) by blast
  have cache_r': "openSessionCache ?r' = CacheSession sk \<or> openSessionCache ?r' = CacheNull"
    using removeOldSessions_cache [of ?rp now] cache_rp by auto
  have d_r'': "distinct (map fst (sessions ?r''))" using keep(1) by (simp add: serialize_sessions(2))
  have in_r'': "(sk, ?session1') \<in> set (sessions ?r'')"
    using in_r' by (force simp: serialize_sessions(1) image_iff)
  have uniq_r'': "\<forall>e \<in> set (sessions ?r''). \<not> isClosed (snd e) \<longrightarrow> fst e = sk"
    using uniq_r' by (auto simp: serialize_sessions(1) serializeEntry_isClosed)
  have cache_r'': "openSessionCache ?r'' = CacheSession sk \<or> openSessionCache ?r'' = CacheNull"
    using cache_r' by (simp add: serialize_sessions(3))
  have gos2': "fst (getOpenSession ?r'') = Some (sk, ?session1')"
    using getOpenSession_unique [OF d_r'' in_r'' open1 uniq_r'' cache_r''] .
  \<comment> \<open>the second call\<close>
  have own: "cachedRecord (snd (getOurIdentityKey c1 st1)) = Some ?r''"
    "lastRecordUpdate (snd (getOurIdentityKey c1 st1)) = now"
    by (simp_all add: getOurIdentityKey_cached c1 storeRecord_record)
  have gr2: "getRecord (snd (getOurIdentityKey c1 st1)) st1 now2 =
      (Some ?r'', snd (getOurIdentityKey c1 st1))"
    using getRecord_hit [OF own(1), of now2 st1] hit own(2) by simp
  obtain record2 where gos2: "getOpenSession ?r'' = (Some (sk, ?session1'), record2)"
    using gos2' by (cases "getOpenSession ?r''") auto
  from encrypt_Inr_D [OF e2 gr2 gos2]
  obtain msg2 result2 session2 where
    ef2: "encryptFrame P eng1 (fst (getOurIdentityKey c1 st1)) ?session1' data2 = (Inr (msg2, result2), session2, eng2)"
    and wf2: "wrapFrame P st2 (fst (getOurIdentityKey c1 st1)) session2 result2 = Inr out2"
    and c2: "c2 = (fst (storeRecord (snd (getOurIdentityKey c1 st1)) st1 (putSession record2 sk session2) now2))\<lparr>lastUsedCounter := wm_counter msg2\<rparr>"
    by blast
  from encryptFrame_Inr_D [OF ef2]
  obtain chx chx1 macInput2 engy k1y where
    chx: "getChain ?session1' (pubKey (ephemeralKeyPair (currentRatchet ?session1'))) = Some chx"
    and fx: "fillMessageKeys P chx (counter (chainKey chx) + 1) = Inr chx1"
    and msg2: "wm_counter msg2 = counter (chainKey chx1)"
       "wm_ephemeralKey msg2 = pubKey (ephemeralKeyPair (currentRatchet ?session1'))"
    and br2: "buildResult (encodeWhisperMessage P msg2) (fst (engine_calculateMAC P engy k1y macInput2)) = Inr result2"
    by (elim exE conjE) (rule that; simp)
  have "chx = ch1\<lparr>messageKeys := (messageKeys ch1)(counter (chainKey ch1) := None)\<rparr>"
    using chx chain1 key1 by simp
  then have "counter (chainKey chx) = counter (chainKey ch1)" by simp
  then have step: "wm_counter msg2 = wm_counter msg1 + 1"
    using fill_one [OF fx] msg1(1) msg2(1) by auto
  have same_key: "wm_ephemeralKey msg2 = wm_ephemeralKey msg1" using msg1(2) msg2(2) key1 by simp
  let ?t1 = "take 8 (fst (engine_calculateMAC P engx k1x macInput1)) @
             replicate (8 - length (fst (engine_calculateMAC P engx k1x macInput1))) 0"
  let ?t2 = "take 8 (fst (engine_calculateMAC P engy k1y macInput2)) @
             replicate (8 - length (fst (engine_calculateMAC P engy k1y macInput2))) 0"
  have res1: "result1 = 0x33 # encodeWhisperMessage P msg1 @ ?t1"
    using buildResult_Inr [OF br1] by simp
  have res2: "result2 = 0x33 # encodeWhisperMessage P msg2 @ ?t2"
    using buildResult_Inr [OF br2] by simp
  have lt: "length ?t1 = 8" "length ?t2 = 8" by auto
  have w1: "(msg_type out1 = 1 \<and> body out1 = 0x33 # encodeWhisperMessage P msg1 @ ?t1) \<or>
            (msg_type out1 = 3 \<and>
             (\<exists>pk. pkm_message pk = 0x33 # encodeWhisperMessage P msg1 @ ?t1 \<and>
                   body out1 = 0x33 # encodePreKeyWhisperMessage P pk))"
    using wrapFrame_Inr [OF wf1] unfolding res1 .
  have w2: "(msg_type out2 = 1 \<and> body out2 = 0x33 # encodeWhisperMessage P msg2 @ ?t2) \<or>
            (msg_type out2 = 3 \<and>
             (\<exists>pk. pkm_message pk = 0x33 # encodeWhisperMessage P msg2 @ ?t2 \<and>
                   body out2 = 0x33 # encodePreKeyWhisperMessage P pk))"
    using wrapFrame_Inr [OF wf2] unfolding res2 .
  have l1: "lastUsedCounter c1 = wm_counter msg1" by (simp add: c1)
  have l2: "lastUsedCounter c2 = wm_counter msg2" by (simp add: c2)
  show ?thesis
    apply (rule exI [of _ msg1], rule exI [of _ msg2], rule exI [of _ ?t1], rule exI [of _ ?t2])
    using w1 w2 lt same_key step l1 l2 by (intro conjI) assumption+
qed

theorem encrypt_counter_increases_witness:
  "fst (encrypt demo_prims demo_engine demo_cipher (demo_storage demo_tx_session True) [1, 2, 3] 5) =
     Inr \<lparr>msg_type = 1, body = [51, 5, 0, 0, 1, 2, 3, 3, 2, 1, 0, 0, 5, 51, 8],
          enc_registrationId = Some 1\<rparr> \<and>
   (case encrypt demo_prims demo_engine demo_cipher (demo_storage demo_tx_session True) [1, 2, 3] 5 of
      (r1, c1, st1, eng1) \<Rightarrow>
        fst (encrypt demo_prims eng1 c1 st1 [4] 6) =
          Inr \<lparr>msg_type = 1, body = [51, 5, 1, 0, 4, 4, 0, 1, 5, 51, 8, 8, 8],
               enc_registrationId = Some 1\<rparr> \<and>
        lastUsedCounter (fst (snd (encrypt demo_prims eng1 c1 st1 [4] 6))) = lastUsedCounter c1 + 1)"
proof -
  let ?st = "demo_storage demo_tx_session True"
  let ?r0 = "(demo_record [(''a'', demo_tx_session)])\<lparr>lastCleanup := 5\<rparr>"
  let ?E = "encrypt demo_prims demo_engine demo_cipher ?st [1, 2, 3] 5"
  let ?out1 = "\<lparr>msg_type = 1, body = [51, 5, 0, 0, 1, 2, 3, 3, 2, 1, 0, 0, 5, 51, 8],
          enc_registrationId = Some 1\<rparr>"
  let ?out2 = "\<lparr>msg_type = 1, body = [51, 5, 1, 0, 4, 4, 0, 1, 5, 51, 8, 8, 8],
               enc_registrationId = Some 1\<rparr>"
  let ?c1 = "fst (snd ?E)" and ?st1 = "fst (snd (snd ?E))" and ?eng1 = "snd (snd (snd ?E))"
  let ?E2 = "encrypt demo_prims ?eng1 ?c1 ?st1 [4] 6"
  have f1: "fst ?E = Inr ?out1" by code_simp
  have f2: "fst ?E2 = Inr ?out2" by code_simp
  have run1: "?E = (Inr ?out1, ?c1, ?st1, ?eng1)" using f1 by (metis prod.collapse)
  have run2: "?E2 = (Inr ?out2, fst (snd ?E2), fst (snd (snd ?E2)), snd (snd (snd ?E2)))"
    using f2 by (metis prod.collapse)
  have hit: "(6::int) - 5 < 1000" by simp
  have r0: "fst (getRecord (snd (getOurIdentityKey demo_cipher ?st)) ?st 5) = Some ?r0"
    by (simp add: getRecord_def getOurIdentityKey_def demo_cipher_def demo_load Let_def)
  have d: "distinct (map fst (sessions ?r0))"
    by (simp add: demo_record_def)
  have one: "\<forall>e \<in> set (sessions ?r0). \<forall>e' \<in> set (sessions ?r0).
                \<not> isClosed (snd e) \<and> \<not> isClosed (snd e') \<longrightarrow> e = e'"
    by (simp add: demo_record_def)
  from encrypt_counter_increases [OF run1 run2 hit r0 d one]
  have "lastUsedCounter (fst (snd ?E2)) = lastUsedCounter ?c1 + 1" by auto
  then show ?thesis using f1 f2 by (simp add: case_prod_beta)
qed

text \<open>
  The claim as stated fails: a second cipher for the same address that loaded the
  record less than a second ago does not ask the storage again and so does not see
  what the first call stored; it encrypts from its cached record and writes counter 0 a
  second time.
\<close>

theorem encrypt_stale_cache_counterexample:
  "fst (encrypt demo_prims demo_engine demo_cipher (demo_storage demo_tx_session True) [1, 2, 3] 5) =
     Inr \<lparr>msg_type = 1, body = [51, 5, 0, 0, 1, 2, 3, 3, 2, 1, 0, 0, 5, 51, 8],
          enc_registrationId = Some 1\<rparr> \<and>
   (case encrypt demo_prims demo_engine demo_cipher (demo_storage demo_tx_session True) [1, 2, 3] 5 of
      (r1, c1, st1, eng1) \<Rightarrow>
        lastUsedCounter c1 = 0 \<and>
        addr_id demo_stale_cipher = addr_id c1 \<and>
        fst (encrypt demo_prims eng1 demo_stale_cipher st1 [4] 6) =
          Inr \<lparr>msg_type = 1, body = [51, 5, 0, 0, 4, 4, 0, 0, 5, 51, 8, 8, 8],
               enc_registrationId = Some 1\<rparr> \<and>
        lastUsedCounter (fst (snd (encrypt demo_prims eng1 demo_stale_cipher st1 [4] 6))) = 0)"
  by code_simp

text \<open>
  What the storage holds after the second of two calls made through the cache is the
  document of the first: \<open>serialize\<close> returns the session's cached document, which the
  steps of the sending chain do not reset. A third call that loads the record (here at
  time 2000, after the cipher's cache has expired) writes counter 1 again.
\<close>

lemma encrypt_reload_repeats_counter:
  "(case encrypt demo_prims demo_engine demo_cipher (demo_storage demo_tx_session True) [1, 2, 3] 5 of
      (r1, c1, st1, eng1) \<Rightarrow>
        (case encrypt demo_prims eng1 c1 st1 [4] 6 of
           (r2, c2, st2, eng2) \<Rightarrow>
             lastUsedCounter c1 = 0 \<and> storedChainCounter st1 ''a'' [5] = Some 0 \<and>
             lastUsedCounter c2 = 1 \<and> storedChainCounter st2 ''a'' [5] = Some 0 \<and>
             lastUsedCounter (fst (snd (encrypt demo_prims eng2 c2 st2 [4] 2000))) = 1))"
  by code_simp

section \<open>Trust in the remote identity\<close>

lemma putSession_map_of:
  "map_of (sessions r) k = Some s0 \<Longrightarrow> map_of (sessions (putSession r k s)) k = Some s"
proof -
  have "map_of xs k = Some s0 \<Longrightarrow>
        map_of (map (\<lambda>e. if fst e = k then (k, s) else e) xs) k = Some s" for xs
    by (induction xs) (auto split: if_splits)
  then show "map_of (sessions r) k = Some s0 \<Longrightarrow> map_of (sessions (putSession r k s)) k = Some s"
    by (simp add: putSession_def)
qed

lemma putSession_map_of_other:
  "k \<noteq> k' \<Longrightarrow> map_of (sessions (putSession r k' s)) k = map_of (sessions r) k"
proof -
  have "k \<noteq> k' \<Longrightarrow>
        map_of (map (\<lambda>e. if fst e = k' then (k', s) else e) xs) k = map_of xs k" for xs
    by (induction xs) auto
  then show "k \<noteq> k' \<Longrightarrow> map_of (sessions (putSession r k' s)) k = map_of (sessions r) k"
    by (simp add: putSession_def)
qed

lemma getSessions_sessions: "sessions (snd (getSessions r)) = sessions r"
  by (simp add: getSessions_def Let_def split: option.splits)

lemma tryDecrypt_key:
  "tryDecrypt P oid fresh now data i ks r = (Inr (k, pt), r2) \<Longrightarrow> k \<in> set ks"
proof (induction ks arbitrary: i r)
  case Nil
  then show ?case by simp
next
  case (Cons k' ks)
  show ?case
  proof (cases "map_of (sessions r) k'")
    case None
    then show ?thesis using Cons by simp
  next
    case (Some session)
    obtain res s' where dd: "doDecryptWhisperMessage P oid (fresh i) data session = (res, s')"
      by (cases "doDecryptWhisperMessage P oid (fresh i) data session") auto
    show ?thesis
    proof (cases res)
      case (Inl e)
      then show ?thesis using Cons Some dd by simp
    next
      case (Inr plaintext)
      then show ?thesis using Cons.prems Some dd by simp
    qed
  qed
qed

lemma tryDecrypt_Inr:
  "tryDecrypt P oid fresh now data i ks r = (Inr (k, pt), r2) \<Longrightarrow> distinct ks \<Longrightarrow>
   \<exists>j s0 s'. map_of (sessions r) k = Some s0 \<and>
     doDecryptWhisperMessage P oid (fresh j) data s0 = (Inr pt, s') \<and>
     map_of (sessions r2) k = Some (s'\<lparr>indexInfo := (indexInfo s')\<lparr>used := now\<rparr>\<rparr>)"
proof (induction ks arbitrary: i r)
  case Nil
  then show ?case by simp
next
  case (Cons k' ks)
  have dks: "distinct ks" and notin: "k' \<notin> set ks" using Cons.prems(2) by simp_all
  show ?case
  proof (cases "map_of (sessions r) k'")
    case None
    then show ?thesis using Cons.IH [OF _ dks] Cons.prems(1) by simp
  next
    case (Some session)
    obtain res s' where dd: "doDecryptWhisperMessage P oid (fresh i) data session = (res, s')"
      by (cases "doDecryptWhisperMessage P oid (fresh i) data session") auto
    show ?thesis
    proof (cases res)
      case (Inl e)
      then have run: "tryDecrypt P oid fresh now data (Suc i) ks (putSession r k' s') = (Inr (k, pt), r2)"
        using Cons.prems(1) Some dd by simp
      from tryDecrypt_key [OF run] notin have ne: "k \<noteq> k'" by auto
      from Cons.IH [OF run dks] show ?thesis
        unfolding putSession_map_of_other [OF ne] .
    next
      case (Inr plaintext)
      then have eq: "k = k'" "pt = plaintext"
        "r2 = putSession r k' (s'\<lparr>indexInfo := (indexInfo s')\<lparr>used := now\<rparr>\<rparr>)"
        using Cons.prems Some dd by auto
      have "map_of (sessions r2) k = Some (s'\<lparr>indexInfo := (indexInfo s')\<lparr>used := now\<rparr>\<rparr>)"
        unfolding eq using putSession_map_of [OF Some] .
      then show ?thesis using dd Inr eq(1,2) Some by blast
    qed
  qed
qed

lemma decryptWithSessions_Inr:
  "decryptWithSessions P oid fresh now data ks r = (Inr (k, pt), r2) \<Longrightarrow> distinct ks \<Longrightarrow>
   \<exists>j s0 s'. map_of (sessions r) k = Some s0 \<and>
     doDecryptWhisperMessage P oid (fresh j) data s0 = (Inr pt, s') \<and>
     map_of (sessions r2) k = Some (s'\<lparr>indexInfo := (indexInfo s')\<lparr>used := now\<rparr>\<rparr>)"
proof -
  assume run: "decryptWithSessions P oid fresh now data ks r = (Inr (k, pt), r2)" and d: "distinct ks"
  from run have "tryDecrypt P oid fresh now data 0 ks r = (Inr (k, pt), r2)"
    by (simp add: decryptWithSessions_def split: if_splits)
  from tryDecrypt_Inr [OF this d] show ?thesis .
qed

lemma doDecrypt_key_gone:
  assumes "doDecryptWhisperMessage P oid fresh buf s = (Inr pt, s')"
    and "decodeWhisperMessage P (take (length buf - 9) (drop 1 buf)) = Inr m"
  shows "\<exists>ch. getChain s' (wm_ephemeralKey m) = Some ch \<and> messageKeys ch (wm_counter m) = None"
  using doDecrypt_Inr_D [OF assms(1)] assms(2) by (auto simp: getChain_def)

text \<open>No step of the ratchet and no decryption touches \<open>indexInfo\<close>.\<close>

lemma calculateRatchet_indexInfo:
  "calculateRatchet P s remoteKey sending = Inr s1 \<Longrightarrow> indexInfo s1 = indexInfo s"
  by (auto simp: calculateRatchet_def bindE_def Let_def addChain_def
      split: sum.splits list.splits if_splits)

lemma maybeStepRatchet_indexInfo:
  assumes "maybeStepRatchet P fresh s remoteKey pc = (res, s1)"
  shows "indexInfo s1 = indexInfo s"
proof (cases "getChain s remoteKey \<noteq> None")
  case True
  then show ?thesis using assms by (simp add: maybeStepRatchet_def)
next
  case False
  show ?thesis
  proof (cases "closePreviousChain P s pc")
    case (Inl e)
    then show ?thesis using assms False by (simp add: maybeStepRatchet_def)
  next
    case (Inr sa)
    have a: "indexInfo sa = indexInfo s"
      using Inr by (auto simp: closePreviousChain_def bindE_def Let_def split: option.splits sum.splits)
    show ?thesis
    proof (cases "calculateRatchet P sa remoteKey False")
      case (Inl e)
      then show ?thesis using assms False Inr a by (simp add: maybeStepRatchet_def)
    next
      case sb: (Inr sb)
      have b: "indexInfo (swapSendingChain sb fresh) = indexInfo s"
        using calculateRatchet_indexInfo [OF sb] a
        by (simp add: swapSendingChain_def Let_def split: option.splits)
      show ?thesis
      proof (cases "calculateRatchet P (swapSendingChain sb fresh) remoteKey True")
        case (Inl e)
        then show ?thesis using assms False Inr sb b by (simp add: maybeStepRatchet_def Let_def)
      next
        case sd: (Inr sd)
        then show ?thesis
          using assms False Inr sb b calculateRatchet_indexInfo [OF sd]
          by (auto simp: maybeStepRatchet_def Let_def)
      qed
    qed
  qed
qed

lemma doDecrypt_indexInfo:
  assumes "doDecryptWhisperMessage P oid fresh buf s = (Inr pt, s')"
  shows "indexInfo s' = indexInfo s"
proof -
  from doDecrypt_Inr_D [OF assms]
  obtain m :: whisper_message and s1 u ch1 where
    st: "maybeStepRatchet P fresh s (wm_ephemeralKey m) (wm_previousCounter m) = (Inr u, s1)"
    and s': "s' = s1\<lparr>chains := (chains s1)(wm_ephemeralKey m \<mapsto>
                 ch1\<lparr>messageKeys := (messageKeys ch1)(wm_counter m := None)\<rparr>),
              pendingPreKey := None\<rparr>"
    by (elim exE conjE) (rule that; assumption)
  show ?thesis using maybeStepRatchet_indexInfo [OF st] by (simp add: s')
qed

text \<open>
  Claim C4, as amended. When \<open>storage.isTrustedIdentity\<close> is false for the remote
  identity key of the open session, \<open>encrypt\<close> fails with UntrustedIdentityKeyError
  carrying \<open>addr.id\<close> and that key before it touches anything: the sessions of the
  record, the storage and the engine are as before. \<open>decryptWhisperMessage\<close> checks
  trust only after a session of the record has decrypted the message: when
  \<open>isTrustedIdentity\<close> is false for the remote identity key of that session, it fails
  with the same error and stores nothing, but the record the cipher holds (and caches)
  has that session as the successful \<open>doDecryptWhisperMessage\<close> left it, with no
  message key at the frame's counter, and with \<open>indexInfo.used\<close> set to the time of
  the call. (The sessions are tried one after the other, each once.)
\<close>

theorem untrusted_identity:
  "(getRecord (snd (getOurIdentityKey c st)) st now = (Some r0, c1) \<and>
    getOpenSession r0 = (Some (sk, session), r1) \<and>
    \<not> isTrustedIdentity st (addr_id c) (remoteIdentityKey (indexInfo session)) \<longrightarrow>
      encrypt P eng c st data now =
        (Inl (UntrustedIdentityKeyError (addr_id c) (remoteIdentityKey (indexInfo session))),
         c1\<lparr>cachedRecord := Some r1\<rparr>, st, eng) \<and>
      sessions r1 = sessions r0) \<and>
   (getRecord c st now = (Some r0', c1') \<and>
    distinct (fst (getSessions r0')) \<and>
    decryptWithSessions P (ourIdentity st) fresh now frame (fst (getSessions r0')) (snd (getSessions r0')) =
      (Inr (k, pt), r2) \<and>
    map_of (sessions r2) k = Some s2 \<and>
    \<not> isTrustedIdentity st (addr_id c) (remoteIdentityKey (indexInfo s2)) \<longrightarrow>
      decryptWhisperMessage P c st fresh frame now =
        (Inl (UntrustedIdentityKeyError (addr_id c) (remoteIdentityKey (indexInfo s2))),
         c1'\<lparr>cachedRecord := Some r2\<rparr>, st) \<and>
      (\<exists>j s0 s'. map_of (sessions r0') k = Some s0 \<and>
         remoteIdentityKey (indexInfo s2) = remoteIdentityKey (indexInfo s0) \<and>
         doDecryptWhisperMessage P (ourIdentity st) (fresh j) frame s0 = (Inr pt, s') \<and>
         s2 = s'\<lparr>indexInfo := (indexInfo s')\<lparr>used := now\<rparr>\<rparr> \<and>
         (\<forall>m. decodeWhisperMessage P (take (length frame - 9) (drop 1 frame)) = Inr m \<longrightarrow>
            (\<exists>ch. getChain s2 (wm_ephemeralKey m) = Some ch \<and> messageKeys ch (wm_counter m) = None))))"
proof (intro conjI impI)
  assume a: "getRecord (snd (getOurIdentityKey c st)) st now = (Some r0, c1) \<and>
    getOpenSession r0 = (Some (sk, session), r1) \<and>
    \<not> isTrustedIdentity st (addr_id c) (remoteIdentityKey (indexInfo session))"
  then show "encrypt P eng c st data now =
        (Inl (UntrustedIdentityKeyError (addr_id c) (remoteIdentityKey (indexInfo session))),
         c1\<lparr>cachedRecord := Some r1\<rparr>, st, eng)"
    by (simp add: encrypt_def Let_def)
  from a show "sessions r1 = sessions r0"
    using getOpenSession_Some(3) [of r0 sk session r1] by simp
next
  assume a: "getRecord c st now = (Some r0', c1') \<and>
    distinct (fst (getSessions r0')) \<and>
    decryptWithSessions P (ourIdentity st) fresh now frame (fst (getSessions r0')) (snd (getSessions r0')) =
      (Inr (k, pt), r2) \<and>
    map_of (sessions r2) k = Some s2 \<and>
    \<not> isTrustedIdentity st (addr_id c) (remoteIdentityKey (indexInfo s2))"
  then show "decryptWhisperMessage P c st fresh frame now =
        (Inl (UntrustedIdentityKeyError (addr_id c) (remoteIdentityKey (indexInfo s2))),
         c1'\<lparr>cachedRecord := Some r2\<rparr>, st)"
    by (simp add: decryptWhisperMessage_def Let_def)
  from a have run: "decryptWithSessions P (ourIdentity st) fresh now frame (fst (getSessions r0'))
      (snd (getSessions r0')) = (Inr (k, pt), r2)"
    and dk: "distinct (fst (getSessions r0'))" and m2: "map_of (sessions r2) k = Some s2"
    by simp_all
  from decryptWithSessions_Inr [OF run dk] m2
  obtain j s0 s' where s0: "map_of (sessions r0') k = Some s0"
    and dd: "doDecryptWhisperMessage P (ourIdentity st) (fresh j) frame s0 = (Inr pt, s')"
    and s2: "s2 = s'\<lparr>indexInfo := (indexInfo s')\<lparr>used := now\<rparr>\<rparr>"
    by (auto simp: getSessions_sessions)
  have rk: "remoteIdentityKey (indexInfo s2) = remoteIdentityKey (indexInfo s0)"
    using doDecrypt_indexInfo [OF dd] by (simp add: s2)
  have "\<forall>m. decodeWhisperMessage P (take (length frame - 9) (drop 1 frame)) = Inr m \<longrightarrow>
            (\<exists>ch. getChain s2 (wm_ephemeralKey m) = Some ch \<and> messageKeys ch (wm_counter m) = None)"
    using doDecrypt_key_gone [OF dd] by (auto simp: s2 getChain_def)
  then show "\<exists>j s0 s'. map_of (sessions r0') k = Some s0 \<and>
         remoteIdentityKey (indexInfo s2) = remoteIdentityKey (indexInfo s0) \<and>
         doDecryptWhisperMessage P (ourIdentity st) (fresh j) frame s0 = (Inr pt, s') \<and>
         s2 = s'\<lparr>indexInfo := (indexInfo s')\<lparr>used := now\<rparr>\<rparr> \<and>
         (\<forall>m. decodeWhisperMessage P (take (length frame - 9) (drop 1 frame)) = Inr m \<longrightarrow>
            (\<exists>ch. getChain s2 (wm_ephemeralKey m) = Some ch \<and> messageKeys ch (wm_counter m) = None))"
    using s0 rk dd s2 by blast
qed

theorem untrusted_identity_witness:
  "fst (encrypt demo_prims demo_engine demo_cipher (demo_storage demo_tx_session False) [1, 2, 3] 5) =
     Inl (UntrustedIdentityKeyError ''bob'' (replicate 33 8)) \<and>
   fst (snd (snd (encrypt demo_prims demo_engine demo_cipher (demo_storage demo_tx_session False) [1, 2, 3] 5))) =
     demo_storage demo_tx_session False \<and>
   fst (decryptWhisperMessage demo_prims demo_cipher (demo_storage demo_rx_session False)
          (\<lambda>_. demo_fresh) demo_frame 5) =
     Inl (UntrustedIdentityKeyError ''bob'' (replicate 33 8)) \<and>
   snd (snd (decryptWhisperMessage demo_prims demo_cipher (demo_storage demo_rx_session False)
          (\<lambda>_. demo_fresh) demo_frame 5)) =
     demo_storage demo_rx_session False"
proof -
  let ?stx = "demo_storage demo_tx_session False"
  let ?rx = "(demo_record [(''a'', demo_tx_session)])\<lparr>lastCleanup := 5\<rparr>"
  have g1: "getRecord (snd (getOurIdentityKey demo_cipher ?stx)) ?stx 5 =
      (Some ?rx, (snd (getOurIdentityKey demo_cipher ?stx))\<lparr>cachedRecord := Some ?rx, lastRecordUpdate := 5\<rparr>)"
    by (simp add: getRecord_def getOurIdentityKey_def demo_cipher_def demo_load Let_def)
  have o1: "getOpenSession ?rx = (Some (''a'', demo_tx_session), ?rx\<lparr>openSessionCache := CacheSession ''a''\<rparr>)"
    by (simp add: getOpenSession_def searchOpenSession_def demo_record_def isClosed_def
        demo_tx_session_def demo_session_def)
  have t1: "\<not> isTrustedIdentity ?stx (addr_id demo_cipher) (remoteIdentityKey (indexInfo demo_tx_session))"
    by (simp add: demo_storage_def)
  have rk1: "remoteIdentityKey (indexInfo demo_tx_session) = replicate 33 8" "addr_id demo_cipher = ''bob''"
    by (simp_all add: demo_tx_session_def demo_session_def demo_cipher_def)
  let ?sty = "demo_storage demo_rx_session False"
  let ?ry = "(demo_record [(''a'', demo_rx_session)])\<lparr>lastCleanup := 5\<rparr>"
  let ?D = "decryptWithSessions demo_prims (ourIdentity ?sty) (\<lambda>_. demo_fresh) 5 demo_frame
              (fst (getSessions ?ry)) (snd (getSessions ?ry))"
  have g2: "getRecord demo_cipher ?sty 5 =
      (Some ?ry, demo_cipher\<lparr>cachedRecord := Some ?ry, lastRecordUpdate := 5\<rparr>)"
    by (simp add: getRecord_def demo_cipher_def demo_load Let_def)
  have dk: "distinct (fst (getSessions ?ry))"
    by (simp add: getSessions_def demo_record_def Let_def)
  have fd: "fst ?D = Inr (''a'', [1, 2, 3, 4, 5])" by code_simp
  then have d2: "?D = (Inr (''a'', [1, 2, 3, 4, 5]), snd ?D)" by (metis prod.collapse)
  from decryptWithSessions_Inr [OF d2 dk]
  obtain s2 where m2: "map_of (sessions (snd ?D)) ''a'' = Some s2" by blast
  have t2: "\<not> isTrustedIdentity ?sty (addr_id demo_cipher) (remoteIdentityKey (indexInfo s2))"
    by (simp add: demo_storage_def)
  have e: "fst (decryptWhisperMessage demo_prims demo_cipher ?sty (\<lambda>_. demo_fresh) demo_frame 5) =
     Inl (UntrustedIdentityKeyError ''bob'' (replicate 33 8))" by code_simp
  from untrusted_identity [of demo_cipher ?stx 5 ?rx _ "''a''" demo_tx_session _
      demo_prims demo_engine "[1, 2, 3]"] g1 o1 t1
  have enc: "encrypt demo_prims demo_engine demo_cipher ?stx [1, 2, 3] 5 =
        (Inl (UntrustedIdentityKeyError ''bob'' (replicate 33 8)),
         (snd (getOurIdentityKey demo_cipher ?stx))\<lparr>cachedRecord := Some ?rx, lastRecordUpdate := 5\<rparr>
           \<lparr>cachedRecord := Some (?rx\<lparr>openSessionCache := CacheSession ''a''\<rparr>)\<rparr>, ?stx, demo_engine)"
    unfolding rk1 by blast
  from untrusted_identity [of demo_cipher ?sty 5 _ _ _ _ _ demo_prims _ _ ?ry
      "demo_cipher\<lparr>cachedRecord := Some ?ry, lastRecordUpdate := 5\<rparr>" "\<lambda>_. demo_fresh" demo_frame
      "''a''" "[1, 2, 3, 4, 5]" "snd ?D" s2] g2 dk d2 m2 t2
  have dec: "snd (snd (decryptWhisperMessage demo_prims demo_cipher ?sty (\<lambda>_. demo_fresh) demo_frame 5)) = ?sty"
    by simp
  show ?thesis using enc dec e by simp
qed

text \<open>
  The claim as stated fails for \<open>decryptWhisperMessage\<close>: the failing call leaves the
  receiving chain of the cached record at counter 0 instead of -1, and a second
  delivery of the frame through the cipher's cache finds no session that decrypts it,
  even with trust given.
\<close>

theorem untrusted_decrypt_counterexample:
  "fst (decryptWhisperMessage demo_prims demo_cipher (demo_storage demo_rx_session False)
          (\<lambda>_. demo_fresh) demo_frame 5) =
     Inl (UntrustedIdentityKeyError ''bob'' (replicate 33 8)) \<and>
   map_option (\<lambda>ch. counter (chainKey ch)) (getChain demo_rx_session [9]) = Some (- 1) \<and>
   cachedChainCounter
     (fst (snd (decryptWhisperMessage demo_prims demo_cipher (demo_storage demo_rx_session False)
                  (\<lambda>_. demo_fresh) demo_frame 5))) ''a'' [9] = Some 0 \<and>
   fst (decryptWhisperMessage demo_prims
          (fst (snd (decryptWhisperMessage demo_prims demo_cipher (demo_storage demo_rx_session False)
                       (\<lambda>_. demo_fresh) demo_frame 5)))
          (demo_storage demo_rx_session True) (\<lambda>_. demo_fresh) demo_frame 6) =
     Inl (SessionError ''No matching sessions found for message'')"
  by code_simp

end
